theory Spec2Isabelle
  imports Main "HOL-Library.AList"
begin

section \<open>JavaScript values\<close>

text \<open>
  Node parameters, trigger payloads and the data passed between nodes are
  \<^verbatim>\<open>Record<string, any>\<close> in the source: data as JSON describes it. An object is an
  association list from the names of its own properties to their values, in the order
  of enumeration; \<open>JUndefined\<close> is what reading a missing property yields. The type of
  numbers is a parameter \<open>'n\<close>; the only operations the modelled code applies to a
  number are the test against zero, the conversion of a length, and the conversion to a
  string. Characters stand for code units.
\<close>

datatype 'n json =
    JUndefined
  | JNull
  | JBool bool
  | JNum 'n
  | JStr string
  | JArr "'n json list"
  | JObj "(string \<times> 'n json) list"

text \<open>Exceptions: \<^verbatim>\<open>new Error(msg)\<close> and the runtime's \<^verbatim>\<open>TypeError\<close>.\<close>

datatype error = Error string | TypeError string

fun message :: "error \<Rightarrow> string" where
  "message (Error m) = m"
| "message (TypeError m) = m"

text \<open>\<^verbatim>\<open>!v\<close> is true for the falsy values.\<close>

fun falsy :: "('n::zero) json \<Rightarrow> bool" where
  "falsy JUndefined = True"
| "falsy JNull = True"
| "falsy (JBool b) = (\<not> b)"
| "falsy (JNum n) = (n = 0)"
| "falsy (JStr s) = (s = [])"
| "falsy (JArr xs) = False"
| "falsy (JObj al) = False"

definition is_digit :: "char \<Rightarrow> bool" where
  "is_digit c = (48 \<le> (of_char c :: nat) \<and> (of_char c :: nat) \<le> 57)"

definition dec_val :: "string \<Rightarrow> nat" where
  "dec_val s = foldl (\<lambda>a c. 10 * a + ((of_char c :: nat) - 48)) 0 s"

text \<open>A property name that is an index: a decimal numeral without a leading zero.\<close>

definition canonical_index :: "string \<Rightarrow> bool" where
  "canonical_index s =
     (s \<noteq> [] \<and> list_all is_digit s \<and> (hd s \<noteq> CHR ''0'' \<or> length s = 1))"

text \<open>The own properties of a value: an element or the length for arrays and strings.\<close>

fun own_prop :: "('n::semiring_char_0) json \<Rightarrow> string \<Rightarrow> 'n json option" where
  "own_prop (JObj al) k = map_of al k"
| "own_prop (JArr xs) k =
     (if canonical_index k \<and> dec_val k < length xs then Some (xs ! dec_val k)
      else if k = ''length'' then Some (JNum (of_nat (length xs)))
      else None)"
| "own_prop (JStr s) k =
     (if canonical_index k \<and> dec_val k < length s then Some (JStr [s ! dec_val k])
      else if k = ''length'' then Some (JNum (of_nat (length s)))
      else None)"
| "own_prop v k = None"

text \<open>
  Reading a property also reaches what the value inherits from the prototypes of the
  runtime (\<^verbatim>\<open>constructor\<close>, \<^verbatim>\<open>toString\<close>, the methods of strings and arrays, ...).
  Such a member is not data: it is a function or another object of the runtime, here
  \<open>Builtin\<close> with a name that identifies it. Which members there are depends on the
  runtime and its version, and the runtime is not part of the repository, so it is a
  parameter: \<open>inherited R v k\<close> is what reading the name \<open>k\<close> on \<open>v\<close> yields
  when \<open>k\<close> is not an own property of \<open>v\<close> (for a built-in object, any of its
  members), \<^verbatim>\<open>undefined\<close> when there is none, or the error that reading it raises;
  \<open>builtin_string R b\<close> is \<^verbatim>\<open>String(b)\<close> for a built-in object and
  \<open>number_string R n\<close> is \<^verbatim>\<open>String(n)\<close> for a number.
\<close>

datatype 'n js_value = Data "'n json" | Builtin string

record 'n runtime =
  number_string :: "'n \<Rightarrow> string"
  inherited :: "'n js_value \<Rightarrow> string \<Rightarrow> error + 'n js_value"
  builtin_string :: "string \<Rightarrow> error + string"

text \<open>
  \<^verbatim>\<open>value?.[segment]\<close>: \<^verbatim>\<open>undefined\<close> on \<^verbatim>\<open>null\<close> and \<^verbatim>\<open>undefined\<close>, otherwise
  the own property of that name or, when there is none, the inherited member.
\<close>

definition get_prop ::
  "('n::semiring_char_0) runtime \<Rightarrow> 'n js_value \<Rightarrow> string \<Rightarrow> error + 'n js_value" where
  "get_prop R v seg =
     (case v of
        Data d \<Rightarrow>
          if d = JUndefined \<or> d = JNull then Inr (Data JUndefined)
          else (case own_prop d seg of
                  Some x \<Rightarrow> Inr (Data x)
                | None \<Rightarrow> inherited R v seg)
      | Builtin b \<Rightarrow> inherited R v seg)"

fun intercalate :: "string \<Rightarrow> string list \<Rightarrow> string" where
  "intercalate sep [] = []"
| "intercalate sep [x] = x"
| "intercalate sep (x # y # ys) = x @ sep @ intercalate sep (y # ys)"

text \<open>
  \<^verbatim>\<open>String(v)\<close> for data. An array joins the strings of its elements with commas, an
  element that is \<^verbatim>\<open>null\<close> or \<^verbatim>\<open>undefined\<close> giving the empty string. An object is
  converted by its \<^verbatim>\<open>toString\<close>: the inherited one gives \<^verbatim>\<open>[object Object]\<close>; an
  own property of that name holds data, which cannot be called, and then neither can
  \<^verbatim>\<open>valueOf\<close> give a primitive value, so the conversion raises.
\<close>

fun data_String :: "'n runtime \<Rightarrow> 'n json \<Rightarrow> error + string"
  and element_Strings :: "'n runtime \<Rightarrow> 'n json list \<Rightarrow> error + string list" where
  "data_String R JUndefined = Inr ''undefined''"
| "data_String R JNull = Inr ''null''"
| "data_String R (JBool b) = Inr (if b then ''true'' else ''false'')"
| "data_String R (JNum n) = Inr (number_string R n)"
| "data_String R (JStr s) = Inr s"
| "data_String R (JArr xs) =
     (case element_Strings R xs of Inl e \<Rightarrow> Inl e | Inr ss \<Rightarrow> Inr (intercalate '','' ss))"
| "data_String R (JObj al) =
     (if map_of al ''toString'' \<noteq> None
      then Inl (TypeError ''Cannot convert object to primitive value'')
      else Inr ''[object Object]'')"
| "element_Strings R [] = Inr []"
| "element_Strings R (x # xs) =
     (case (if x = JUndefined \<or> x = JNull then Inr [] else data_String R x) of
        Inl e \<Rightarrow> Inl e
      | Inr s \<Rightarrow> (case element_Strings R xs of Inl e \<Rightarrow> Inl e | Inr ss \<Rightarrow> Inr (s # ss)))"

text \<open>\<^verbatim>\<open>String(v)\<close> for any value.\<close>

definition js_String :: "'n runtime \<Rightarrow> 'n js_value \<Rightarrow> error + string" where
  "js_String R v = (case v of Data d \<Rightarrow> data_String R d | Builtin b \<Rightarrow> builtin_string R b)"

subsection \<open>Objects\<close>

text \<open>
  \<^verbatim>\<open>obj[k] = v\<close> on an object whose properties are listed in enumeration order: an
  existing property keeps its place, a new one goes after the others, except that the
  names that are array indices come first, in ascending order.
\<close>

definition array_index_key :: "string \<Rightarrow> bool" where
  "array_index_key k = (canonical_index k \<and> dec_val k < 4294967295)"

fun insert_index :: "string \<Rightarrow> 'a \<Rightarrow> (string \<times> 'a) list \<Rightarrow> (string \<times> 'a) list" where
  "insert_index k v [] = [(k, v)]"
| "insert_index k v (p # al) =
     (if array_index_key (fst p) \<and> dec_val (fst p) < dec_val k then p # insert_index k v al
      else (k, v) # p # al)"

definition js_set :: "string \<Rightarrow> 'a \<Rightarrow> (string \<times> 'a) list \<Rightarrow> (string \<times> 'a) list" where
  "js_set k v al =
     (if k \<in> fst ` set al then AList.update k v al
      else if array_index_key k then insert_index k v al
      else al @ [(k, v)])"

text \<open>
  The assignment \<^verbatim>\<open>obj[k] = v\<close> itself, on an object made by a literal. The name
  \<^verbatim>\<open>__proto__\<close> is the accessor that every such object inherits: assigning to it
  replaces the prototype of the object when \<open>v\<close> is an object and does nothing
  otherwise; in neither case does the object get a property, so
  \<^verbatim>\<open>Object.values\<close>, \<^verbatim>\<open>Object.entries\<close> and a serialisation do not see \<open>v\<close>.
\<close>

definition js_assign :: "string \<Rightarrow> 'a \<Rightarrow> (string \<times> 'a) list \<Rightarrow> (string \<times> 'a) list" where
  "js_assign k v al = (if k = ''__proto__'' then al else js_set k v al)"

text \<open>
  \<^verbatim>\<open>{...a, ...b}\<close> on two objects: the properties of \<open>b\<close> are defined in order
  on a copy of \<open>a\<close> (a spread defines properties, it does not assign).
\<close>

definition spread :: "(string \<times> 'v) list \<Rightarrow> (string \<times> 'v) list \<Rightarrow> (string \<times> 'v) list" where
  "spread a b = fold (\<lambda>(k, v). js_set k v) b a"

subsection \<open>String helpers\<close>

text \<open>\<^verbatim>\<open>s.split(d)\<close> for a one-character separator: never the empty list.\<close>

fun split_on :: "char \<Rightarrow> string \<Rightarrow> string list" where
  "split_on d [] = [[]]"
| "split_on d (c # cs) =
     (if c = d then [] # split_on d cs
      else (case split_on d cs of
              [] \<Rightarrow> [[c]]
            | w # ws \<Rightarrow> (c # w) # ws))"

text \<open>White space and line terminators among the code units below 256.\<close>

definition is_space :: "char \<Rightarrow> bool" where
  "is_space c = ((of_char c :: nat) \<in> {9, 10, 11, 12, 13, 32, 160})"

definition trim :: "string \<Rightarrow> string" where
  "trim s = rev (dropWhile is_space (rev (dropWhile is_space s)))"

text \<open>\<^verbatim>\<open>s.includes(sub)\<close>.\<close>

fun includes_str :: "string \<Rightarrow> string \<Rightarrow> bool" where
  "includes_str [] sub = (sub = [])"
| "includes_str (c # cs) sub = (take (length sub) (c # cs) = sub \<or> includes_str cs sub)"

section \<open>The HTTP Request handler's placeholders\<close>

definition is_brace :: "char \<Rightarrow> bool" where
  "is_brace c = (c = CHR ''{'' \<or> c = CHR ''}'')"

text \<open>
  One attempt of the regular expression \<^verbatim>\<open>/{{([^{}]+)}}/\<close> at the head of a string:
  two opening braces, the longest non-empty run of characters other than braces (the
  captured key), two closing braces. A shorter run cannot match, since the character
  after it is not a brace. The result is the key and the text after the match.
\<close>

definition match_placeholder :: "string \<Rightarrow> (string \<times> string) option" where
  "match_placeholder s =
     (case s of
        c1 # c2 # r \<Rightarrow>
          if c1 = CHR ''{'' \<and> c2 = CHR ''{'' then
            (let key = takeWhile (\<lambda>c. \<not> is_brace c) r;
                 rest = dropWhile (\<lambda>c. \<not> is_brace c) r
             in if key \<noteq> [] \<and> take 2 rest = ''}}'' then Some (key, drop 2 rest) else None)
          else None
      | _ \<Rightarrow> None)"

lemma match_placeholder_shorter:
  "match_placeholder s = Some (key, rest) \<Longrightarrow> length rest < length s"
proof -
  assume m: "match_placeholder s = Some (key, rest)"
  then obtain c1 c2 r where s: "s = c1 # c2 # r"
    by (cases s; cases "tl s") (auto simp: match_placeholder_def)
  from m have "rest = drop 2 (dropWhile (\<lambda>c. \<not> is_brace c) r)"
    unfolding s match_placeholder_def by (auto simp: Let_def split: if_splits)
  moreover have "length (dropWhile (\<lambda>c. \<not> is_brace c) r) \<le> length r"
    by (rule length_dropWhile_le)
  ultimately show ?thesis using s by simp
qed

text \<open>
  \<^verbatim>\<open>text.replace(/{{([^{}]+)}}/g, f)\<close>: the matches are found from left to right
  without overlap, each is replaced by what \<open>f\<close> returns for its key, every
  other character is copied. When \<open>f\<close> raises, so does the call.
\<close>

function replace_matches :: "(string \<Rightarrow> error + string) \<Rightarrow> string \<Rightarrow> error + string" where
  "replace_matches f [] = Inr []"
| "replace_matches f (c # cs) =
     (case match_placeholder (c # cs) of
        Some (key, rest) \<Rightarrow>
          (case f key of
             Inl e \<Rightarrow> Inl e
           | Inr s \<Rightarrow> (case replace_matches f rest of Inl e \<Rightarrow> Inl e | Inr t \<Rightarrow> Inr (s @ t)))
      | None \<Rightarrow> (case replace_matches f cs of Inl e \<Rightarrow> Inl e | Inr t \<Rightarrow> Inr (c # t)))"
  by pat_completeness auto
termination
  by (relation "measure (\<lambda>(f, s). length s)") (auto dest: match_placeholder_shorter)

text \<open>
  The loop \<^verbatim>\<open>for (const segment of path) { value = value?.[segment]; if (value === undefined) break; }\<close>.
\<close>

fun lookup_path ::
  "('n::semiring_char_0) runtime \<Rightarrow> 'n js_value \<Rightarrow> string list \<Rightarrow> error + 'n js_value" where
  "lookup_path R v [] = Inr v"
| "lookup_path R v (seg # segs) =
     (case get_prop R v seg of
        Inl e \<Rightarrow> Inl e
      | Inr v' \<Rightarrow> if v' = Data JUndefined then Inr (Data JUndefined) else lookup_path R v' segs)"

text \<open>The callback of \<^verbatim>\<open>replacePlaceholders\<close>, for one captured key.\<close>

definition resolve_key ::
  "('n::semiring_char_0) runtime \<Rightarrow> (string \<times> 'n json) list \<Rightarrow> string \<Rightarrow> error + string" where
  "resolve_key R data key =
     (case lookup_path R (Data (JObj data)) (split_on CHR ''.'' (trim key)) of
        Inl e \<Rightarrow> Inl e
      | Inr v \<Rightarrow> if v \<noteq> Data JUndefined then js_String R v else Inr (''{{'' @ key @ ''}}''))"

definition replacePlaceholders ::
  "('n::semiring_char_0) runtime \<Rightarrow> string \<Rightarrow> (string \<times> 'n json) list \<Rightarrow> error + string" where
  "replacePlaceholders R text' data =
     (if text' = [] then Inr [] else replace_matches (resolve_key R data) text')"


section \<open>Workflows\<close>

text \<open>
  \<^verbatim>\<open>NodeType\<close>, \<^verbatim>\<open>ConnectionType\<close> and \<^verbatim>\<open>Workflow\<close> of the shared schema, with
  the fields the engine, the handlers and the webhook route read. \<open>'v\<close> is the type
  of the values held by parameters and payloads.
\<close>

record 'v node_type =
  nid :: string
  nname :: string
  ntype :: string
  parameters :: "(string \<times> 'v) list"

record connection_type =
  source :: string
  sourceHandle :: "string option"
  target :: string
  targetHandle :: "string option"

record 'v workflow =
  wid :: nat
  active :: bool
  wf_nodes :: "'v node_type list"
  wf_connections :: "connection_type list"

section \<open>The execution engine\<close>

datatype node_status = NPending | NRunning | NCompleted | NError | NSkipped

datatype execution_status = XRunning | XCompleted | XError | XCancelled

text \<open>
  \<^verbatim>\<open>NodeExecutionData\<close>. The two timestamps are readings of the wall clock; nothing
  in the engine depends on them and they are left out.
\<close>

record 'v node_execution_data =
  n_id :: string
  n_name :: string
  n_type :: string
  executed :: bool
  n_status :: node_status
  n_error :: "error option"
  inputData :: "(string \<times> 'v) list"
  outputData :: "(string \<times> 'v) list option"

text \<open>
  \<^verbatim>\<open>ExecutionContext\<close>. The object \<^verbatim>\<open>nodes\<close> is an association list in the order
  in which JavaScript enumerates its properties. The field \<open>invoked\<close> is not a
  field of the source: it is the trace of the calls of \<^verbatim>\<open>handler.execute\<close>, each with
  the node id and whether the returned promise was fulfilled. The engine serves
  one context per execution id and never removes one, so a single context is modelled
  and the branch \<^verbatim>\<open>Execution ... not found\<close> does not arise.
\<close>

record 'v execution_context =
  workflowId :: nat
  status :: execution_status
  nodes :: "(string \<times> 'v node_execution_data) list"
  currentNodeId :: "string option"
  exec_data :: "(string \<times> 'v) list"
  exec_error :: "error option"
  connections :: "connection_type list"
  invoked :: "(string \<times> bool) list"

text \<open>
  The collaborators of the engine. A handler takes the node and its input and is fulfilled
  with output data or rejected with an error. \<open>registry\<close> is
  \<^verbatim>\<open>nodeRegistry.getHandler\<close>. \<open>getWorkflow\<close> is what the expression
  \<^verbatim>\<open>storage.getWorkflow(id)\<close> evaluates to in \<^verbatim>\<open>getNodeById\<close>, which does not
  await it. The method of the repository's storage is declared \<^verbatim>\<open>async\<close>, so there
  the expression is a promise object, whatever the database holds; a workflow or
  \<^verbatim>\<open>undefined\<close> is what a gateway that answers synchronously would give.
\<close>

datatype 'v storage_result = RetWorkflow "'v workflow" | RetUndefined | RetPromise

type_synonym 'v handler = "'v node_type \<Rightarrow> (string \<times> 'v) list \<Rightarrow> error + (string \<times> 'v) list"

record 'v collaborators =
  registry :: "string \<Rightarrow> 'v handler option"
  getWorkflow :: "nat \<Rightarrow> 'v storage_result"


text \<open>
  \<^verbatim>\<open>workflow?.nodes.find(node => node.id === nodeId)\<close> after the guard
  \<^verbatim>\<open>if (!nodeId) return undefined\<close>. On a promise, \<^verbatim>\<open>.nodes\<close> is \<^verbatim>\<open>undefined\<close> and
  the call of \<^verbatim>\<open>find\<close> raises.
\<close>

definition getNodeById ::
  "'v collaborators \<Rightarrow> 'v execution_context \<Rightarrow> string option \<Rightarrow> error + 'v node_type option" where
  "getNodeById E c nodeId =
     (case nodeId of
        None \<Rightarrow> Inr None
      | Some i \<Rightarrow>
          if i = [] then Inr None
          else (case getWorkflow E (workflowId c) of
                  RetUndefined \<Rightarrow> Inr None
                | RetWorkflow w \<Rightarrow> Inr (find (\<lambda>node. nid node = i) (wf_nodes w))
                | RetPromise \<Rightarrow>
                    Inl (TypeError ''Cannot read properties of undefined (reading 'find')'')))"

definition findNextNodes :: "'v execution_context \<Rightarrow> string \<Rightarrow> string list" where
  "findNextNodes c nodeId = map target (filter (\<lambda>cn. source cn = nodeId) (connections c))"

text \<open>A mutation of the record \<^verbatim>\<open>execution.nodes[k]\<close>, when it exists.\<close>

definition update_node ::
  "string \<Rightarrow> ('v node_execution_data \<Rightarrow> 'v node_execution_data) \<Rightarrow>
   'v execution_context \<Rightarrow> 'v execution_context" where
  "update_node k f c = c\<lparr>nodes := AList.map_entry k f (nodes c)\<rparr>"

text \<open>The first half of the \<^verbatim>\<open>try\<close> block: the node's definition and its handler.\<close>

definition resolve_handler ::
  "'v collaborators \<Rightarrow> 'v execution_context \<Rightarrow> string \<Rightarrow> error + ('v node_type \<times> 'v handler)" where
  "resolve_handler E c nodeId =
     (case getNodeById E c (Some nodeId) of
        Inl e \<Rightarrow> Inl e
      | Inr None \<Rightarrow> Inl (Error (''Node '' @ nodeId @ '' definition not found''))
      | Inr (Some node) \<Rightarrow>
          (case registry E (ntype node) of
             None \<Rightarrow> Inl (Error (''No handler found for node type: '' @ ntype node))
           | Some handler \<Rightarrow> Inr (node, handler)))"

text \<open>The loop that prepares the input of the next nodes; an unknown id is skipped.\<close>

fun prepare_inputs ::
  "string list \<Rightarrow> (string \<times> 'v) list \<Rightarrow> 'v execution_context \<Rightarrow> 'v execution_context" where
  "prepare_inputs [] out c = c"
| "prepare_inputs (nextNodeId # rest) out c =
     prepare_inputs rest out
       (update_node nextNodeId (\<lambda>ne. ne\<lparr>inputData := spread (inputData ne) out\<rparr>) c)"

text \<open>The \<^verbatim>\<open>catch\<close> block of \<^verbatim>\<open>executeNode\<close>, before it rethrows.\<close>

definition fail_node :: "string \<Rightarrow> error \<Rightarrow> 'v execution_context \<Rightarrow> 'v execution_context" where
  "fail_node k e c = update_node k (\<lambda>ne. ne\<lparr>n_status := NError, n_error := Some e\<rparr>) c"

definition start_node :: "string \<Rightarrow> 'v execution_context \<Rightarrow> 'v execution_context" where
  "start_node k c = (update_node k (\<lambda>ne. ne\<lparr>n_status := NRunning\<rparr>) c)\<lparr>currentNodeId := Some k\<rparr>"

definition complete_node ::
  "string \<Rightarrow> (string \<times> 'v) list \<Rightarrow> 'v execution_context \<Rightarrow> 'v execution_context" where
  "complete_node k out c =
     update_node k (\<lambda>ne. ne\<lparr>executed := True, n_status := NCompleted, outputData := Some out\<rparr>) c"

text \<open>
  After the handler has returned: the node is marked, the next nodes are found and the
  output is merged into their input.
\<close>

definition propagate_output ::
  "string \<Rightarrow> (string \<times> 'v) list \<Rightarrow> 'v execution_context \<Rightarrow> 'v execution_context" where
  "propagate_output k out c =
     prepare_inputs (findNextNodes c k) out (complete_node k out c)"

definition log_call :: "string \<Rightarrow> bool \<Rightarrow> 'v execution_context \<Rightarrow> 'v execution_context" where
  "log_call k ok c = c\<lparr>invoked := invoked c @ [(k, ok)]\<rparr>"

text \<open>The number of node records that are not yet executed: it bounds the traversal.\<close>

definition unexecuted :: "'v execution_context \<Rightarrow> nat" where
  "unexecuted c = length (filter (\<lambda>p. \<not> executed (snd p)) (nodes c))"

lemma unexecuted_map_entry_same:
  "(\<And>ne. executed (f ne) = executed ne) \<Longrightarrow>
   length (filter (\<lambda>p. \<not> executed (snd p)) (AList.map_entry k f al)) =
   length (filter (\<lambda>p. \<not> executed (snd p)) al)"
  by (induction al) auto

lemma unexecuted_map_entry_less:
  "map_of al k = Some ne \<Longrightarrow> \<not> executed ne \<Longrightarrow> executed (f ne) \<Longrightarrow>
   length (filter (\<lambda>p. \<not> executed (snd p)) (AList.map_entry k f al)) <
   length (filter (\<lambda>p. \<not> executed (snd p)) al)"
  by (induction al) (auto split: if_splits)

lemma unexecuted_simps:
  "unexecuted (fail_node k e c) = unexecuted c"
  "unexecuted (start_node k c) = unexecuted c"
  "unexecuted (log_call k ok c) = unexecuted c"
  by (simp_all add: unexecuted_def fail_node_def start_node_def log_call_def update_node_def
      unexecuted_map_entry_same)

lemma unexecuted_prepare_inputs: "unexecuted (prepare_inputs ns out c) = unexecuted c"
  by (induction ns out c rule: prepare_inputs.induct)
     (simp_all add: unexecuted_def update_node_def unexecuted_map_entry_same)

lemma map_of_start_node:
  "map_of (nodes (start_node k c)) k = map_option (\<lambda>ne. ne\<lparr>n_status := NRunning\<rparr>) (map_of (nodes c) k)"
  by (simp add: start_node_def update_node_def map_of_map_entry split: option.splits)

lemma unexecuted_complete_node:
  "map_of (nodes c) k = Some ne \<Longrightarrow> \<not> executed ne \<Longrightarrow>
   unexecuted (complete_node k out c) < unexecuted c"
  unfolding unexecuted_def complete_node_def update_node_def
  by (simp add: unexecuted_map_entry_less)

lemma unexecuted_propagate_output:
  "map_of (nodes c) k = Some ne \<Longrightarrow> \<not> executed ne \<Longrightarrow>
   unexecuted (propagate_output k out c) < unexecuted c"
  by (simp add: propagate_output_def unexecuted_prepare_inputs unexecuted_complete_node)

text \<open>
  \<^verbatim>\<open>executeNode\<close> with the loop over the next nodes that it ends with. The result is
  the error the promise is rejected with, if any, and the context as the call leaves
  it. The recursion is inside the \<^verbatim>\<open>try\<close> block, so an error raised by a node
  downstream passes through the \<^verbatim>\<open>catch\<close> block of each node above it. The
  updates sent over the web socket after each step change nothing in the context and
  are left out; the connections never change, so the next nodes are read from the
  context of the call; the message of the first error is given without the id of the
  execution.
\<close>

function executeNode ::
    "'v collaborators \<Rightarrow> 'v execution_context \<Rightarrow> string \<Rightarrow> error option \<times> 'v execution_context"
  and executeNodes ::
    "'v collaborators \<Rightarrow> 'v execution_context \<Rightarrow> string list \<Rightarrow> error option \<times> 'v execution_context"
where
  "executeNode E c nodeId =
     (case map_of (nodes c) nodeId of
        None \<Rightarrow> (Some (Error (''Node '' @ nodeId @ '' not found in execution'')), c)
      | Some nodeExecution \<Rightarrow>
          if executed nodeExecution then (None, c)
          else
            (case resolve_handler E (start_node nodeId c) nodeId of
               Inl e \<Rightarrow> (Some e, fail_node nodeId e (start_node nodeId c))
             | Inr (node, handler) \<Rightarrow>
                 (case handler node (inputData nodeExecution) of
                    Inl e \<Rightarrow>
                      (Some e, fail_node nodeId e (log_call nodeId False (start_node nodeId c)))
                  | Inr out \<Rightarrow>
                      (case executeNodes E
                              (propagate_output nodeId out
                                 (log_call nodeId True (start_node nodeId c)))
                              (findNextNodes c nodeId) of
                         (None, c') \<Rightarrow> (None, c')
                       | (Some e, c') \<Rightarrow> (Some e, fail_node nodeId e c')))))"
| "executeNodes E c [] = (None, c)"
| "executeNodes E c (nextNodeId # rest) =
     (case executeNode E c nextNodeId of
        (None, c') \<Rightarrow> executeNodes E c' rest
      | (Some e, c') \<Rightarrow> (Some e, c'))"
  by pat_completeness auto


text \<open>
  Termination: a call that gets past the guard marks a node record executed before it
  recurses, and no call turns an executed record back.
\<close>

lemma executeNode_unexecuted_le:
  "executeNode_executeNodes_dom (Inl (E, c, nodeId)) \<Longrightarrow>
     unexecuted (snd (executeNode E c nodeId)) \<le> unexecuted c"
  "executeNode_executeNodes_dom (Inr (E, c, ids)) \<Longrightarrow>
     unexecuted (snd (executeNodes E c ids)) \<le> unexecuted c"
proof (induct rule: executeNode_executeNodes.pinduct)
  case (1 E c nodeId)
  show ?case
  proof (cases "map_of (nodes c) nodeId")
    case None
    with 1(1) show ?thesis by (simp add: executeNode.psimps)
  next
    case (Some ne)
    show ?thesis
    proof (cases "executed ne")
      case True
      with Some 1(1) show ?thesis by (simp add: executeNode.psimps)
    next
      case False
      show ?thesis
      proof (cases "resolve_handler E (start_node nodeId c) nodeId")
        case (Inl e)
        with Some False 1(1) show ?thesis
          by (simp add: executeNode.psimps unexecuted_simps)
      next
        case (Inr b)
        obtain node handler where b: "b = (node, handler)" by (cases b)
        show ?thesis
        proof (cases "handler node (inputData ne)")
          case (Inl e)
          with Some False Inr b 1(1) show ?thesis
            by (simp add: executeNode.psimps unexecuted_simps)
        next
          case out: (Inr out)
          let ?c4 = "propagate_output nodeId out (log_call nodeId True (start_node nodeId c))"
          have m: "map_of (nodes (log_call nodeId True (start_node nodeId c))) nodeId =
                  Some (ne\<lparr>n_status := NRunning\<rparr>)"
            using Some by (simp add: log_call_def map_of_start_node)
          have "unexecuted ?c4 < unexecuted (log_call nodeId True (start_node nodeId c))"
            by (rule unexecuted_propagate_output [OF m]) (simp add: False)
          then have lt: "unexecuted ?c4 < unexecuted c"
            by (simp add: unexecuted_simps)
          have ih: "unexecuted (snd (executeNodes E ?c4 (findNextNodes c nodeId))) \<le> unexecuted ?c4"
            using 1(2) [OF Some False Inr b [symmetric] out] .
          obtain r c' where r: "executeNodes E ?c4 (findNextNodes c nodeId) = (r, c')"
            by (cases "executeNodes E ?c4 (findNextNodes c nodeId)")
          with ih lt have "unexecuted c' \<le> unexecuted c" by simp
          with Some False Inr b out r 1(1) show ?thesis
            by (cases r) (simp_all add: executeNode.psimps unexecuted_simps)
        qed
      qed
    qed
  qed
next
  case (2 E c)
  then show ?case by (simp add: executeNodes.psimps)
next
  case (3 E c nextNodeId rest)
  obtain r c' where r: "executeNode E c nextNodeId = (r, c')"
    by (cases "executeNode E c nextNodeId")
  show ?case
  proof (cases r)
    case None
    with 3(2) r have "unexecuted c' \<le> unexecuted c" by simp
    moreover from 3(3) [OF r [symmetric] None]
    have "unexecuted (snd (executeNodes E c' rest)) \<le> unexecuted c'" .
    ultimately show ?thesis using 3(1) r None by (simp add: executeNodes.psimps)
  next
    case (Some e)
    with 3(1) 3(2) r show ?thesis by (simp add: executeNodes.psimps)
  qed
qed

termination executeNode
proof (relation "inv_image (less_than <*lex*> less_than)
    (\<lambda>x. case x of
            Inl (E, c, nodeId) \<Rightarrow> (unexecuted c, 0 :: nat)
          | Inr (E, c, ids) \<Rightarrow> (unexecuted c, Suc (length ids)))")
  show "wf (inv_image (less_than <*lex*> less_than)
    (\<lambda>x. case x of
            Inl (E :: 'a collaborators, c, nodeId :: string) \<Rightarrow> (unexecuted c, 0 :: nat)
          | Inr (E, c, ids :: string list) \<Rightarrow> (unexecuted c, Suc (length ids))))"
    by (intro wf_inv_image wf_lex_prod wf_less_than)
next
  fix E :: "'a collaborators" and c :: "'a execution_context" and nodeId ne b node handler out
  assume ne: "map_of (nodes c) nodeId = Some ne" "\<not> executed ne"
  have m: "map_of (nodes (log_call nodeId True (start_node nodeId c))) nodeId =
          Some (ne\<lparr>n_status := NRunning\<rparr>)"
    using ne(1) by (simp add: log_call_def map_of_start_node)
  have "unexecuted (propagate_output nodeId out (log_call nodeId True (start_node nodeId c)))
        < unexecuted (log_call nodeId True (start_node nodeId c))"
    by (rule unexecuted_propagate_output [OF m]) (simp add: ne(2))
  then show "(Inr (E, propagate_output nodeId out (log_call nodeId True (start_node nodeId c)),
              findNextNodes c nodeId), Inl (E, c, nodeId))
        \<in> inv_image (less_than <*lex*> less_than)
            (\<lambda>x. case x of
                    Inl (E, c, nodeId) \<Rightarrow> (unexecuted c, 0 :: nat)
                  | Inr (E, c, ids) \<Rightarrow> (unexecuted c, Suc (length ids)))"
    by (simp add: unexecuted_simps)
next
  fix E :: "'a collaborators" and c :: "'a execution_context" and nextNodeId rest
  show "(Inl (E, c, nextNodeId), Inr (E, c, nextNodeId # rest))
        \<in> inv_image (less_than <*lex*> less_than)
            (\<lambda>x. case x of
                    Inl (E, c, nodeId) \<Rightarrow> (unexecuted c, 0 :: nat)
                  | Inr (E, c, ids) \<Rightarrow> (unexecuted c, Suc (length ids)))"
    by simp
next
  fix E :: "'a collaborators" and c :: "'a execution_context" and nextNodeId rest r c'
  assume r: "(r, c') = executeNode E c nextNodeId"
    and d: "executeNode_executeNodes_dom (Inl (E, c, nextNodeId))"
  have eq: "executeNode E c nextNodeId = (r, c')" using r by (rule sym)
  have "unexecuted c' \<le> unexecuted c"
    using executeNode_unexecuted_le(1) [OF d] unfolding eq by simp
  then show "(Inr (E, c', rest), Inr (E, c, nextNodeId # rest))
        \<in> inv_image (less_than <*lex*> less_than)
            (\<lambda>x. case x of
                    Inl (E, c, nodeId) \<Rightarrow> (unexecuted c, 0 :: nat)
                  | Inr (E, c, ids) \<Rightarrow> (unexecuted c, Suc (length ids)))"
    by (simp add: le_less)
qed


declare executeNode.simps [simp del]

subsection \<open>Starting and finishing an execution\<close>

record 'v execution_options =
  opt_workflowId :: nat
  triggerData :: "(string \<times> 'v) list option"
  triggerNodeId :: "string option"

definition pending_node :: "'v node_type \<Rightarrow> 'v node_execution_data" where
  "pending_node node =
     \<lparr>n_id = nid node, n_name = nname node, n_type = ntype node, executed = False,
      n_status = NPending, n_error = None, inputData = [], outputData = None\<rparr>"

text \<open>
  The context that \<^verbatim>\<open>execute\<close> sets up: a pending record is assigned to
  \<^verbatim>\<open>executionContext.nodes[node.id]\<close> for each node in turn. The record of a node whose
  id is \<^verbatim>\<open>__proto__\<close> becomes the prototype of \<^verbatim>\<open>nodes\<close> and is not one of its
  properties.
\<close>

definition initial_context :: "'v workflow \<Rightarrow> 'v execution_options \<Rightarrow> 'v execution_context" where
  "initial_context w opts =
     \<lparr>workflowId = opt_workflowId opts,
      status = XRunning,
      nodes = fold (\<lambda>node. js_assign (nid node) (pending_node node)) (wf_nodes w) [],
      currentNodeId = None,
      exec_data = (case triggerData opts of None \<Rightarrow> [] | Some d \<Rightarrow> d),
      exec_error = None,
      connections = wf_connections w,
      invoked = []\<rparr>"

text \<open>\<^verbatim>\<open>formatResults\<close>, without the timestamps.\<close>

record 'v node_result =
  r_status :: node_status
  r_executed :: bool
  r_error :: "string option"
  r_outputData :: "(string \<times> 'v) list option"

record 'v results =
  res_status :: execution_status
  nodeResults :: "(string \<times> 'v node_result) list"
  res_error :: "string option"

definition formatResults :: "'v execution_context \<Rightarrow> 'v results" where
  "formatResults c =
     \<lparr>res_status = status c,
      nodeResults =
        map (\<lambda>(nodeId, ne).
               (nodeId, \<lparr>r_status = n_status ne, r_executed = executed ne,
                         r_error = map_option message (n_error ne),
                         r_outputData = outputData ne\<rparr>))
            (nodes c),
      res_error = map_option message (exec_error c)\<rparr>"

text \<open>
  What the engine hands to the database: the record inserted when the execution starts
  and the fields of the updates (\<^verbatim>\<open>status\<close>, \<^verbatim>\<open>results\<close>, \<^verbatim>\<open>error\<close>). A failure
  of the database is logged by the source and changes nothing else.
\<close>

datatype 'v db_write =
    InsertExecution execution_status
  | UpdateExecution execution_status "'v results option" "error option"


text \<open>
  \<^verbatim>\<open>executeWorkflow\<close>: the error it is rejected with, if any, the context, and the
  update of the database it makes when the traversal returns.
\<close>

definition executeWorkflow ::
  "'v collaborators \<Rightarrow> 'v execution_context \<Rightarrow> string option \<Rightarrow>
   error option \<times> 'v execution_context \<times> 'v db_write list" where
  "executeWorkflow E c startNodeId =
     (case (if startNodeId \<noteq> None \<and> startNodeId \<noteq> Some []
            then getNodeById E c startNodeId
            else getNodeById E c
                   (map_option n_id
                      (find (\<lambda>n. includes_str (n_type n) ''trigger'') (map snd (nodes c))))) of
        Inl e \<Rightarrow> (Some e, c, [])
      | Inr None \<Rightarrow> (Some (Error ''No trigger node found''), c, [])
      | Inr (Some startNode) \<Rightarrow>
          (case executeNode E c (nid startNode) of
             (Some e, c') \<Rightarrow> (Some e, c', [])
           | (None, c') \<Rightarrow>
               (None, c', [UpdateExecution (status c') (Some (formatResults c')) None])))"

text \<open>
  \<^verbatim>\<open>execute\<close> returns the execution id at once and lets \<^verbatim>\<open>executeWorkflow\<close> run;
  the model gives the context and the writes to the database once that promise has
  settled, the handler attached with \<^verbatim>\<open>catch\<close> included.
\<close>

record 'v execution_outcome =
  final :: "'v execution_context"
  db_writes :: "'v db_write list"

definition execute ::
  "'v collaborators \<Rightarrow> 'v workflow \<Rightarrow> 'v execution_options \<Rightarrow> 'v execution_outcome" where
  "execute E w opts =
     (case executeWorkflow E (initial_context w opts) (triggerNodeId opts) of
        (None, c, ws) \<Rightarrow> \<lparr>final = c, db_writes = InsertExecution XRunning # ws\<rparr>
      | (Some e, c, ws) \<Rightarrow>
          \<lparr>final = c\<lparr>status := XError, exec_error := Some e\<rparr>,
           db_writes = InsertExecution XRunning # ws @ [UpdateExecution XError None (Some e)]\<rparr>)"


subsection \<open>Reading a context\<close>

definition node_known :: "'v execution_context \<Rightarrow> string \<Rightarrow> bool" where
  "node_known c k = (map_of (nodes c) k \<noteq> None)"

definition node_executed :: "'v execution_context \<Rightarrow> string \<Rightarrow> bool" where
  "node_executed c k = (case map_of (nodes c) k of None \<Rightarrow> False | Some ne \<Rightarrow> executed ne)"

definition node_status :: "'v execution_context \<Rightarrow> string \<Rightarrow> node_status option" where
  "node_status c k = map_option n_status (map_of (nodes c) k)"

definition node_input :: "'v execution_context \<Rightarrow> string \<Rightarrow> (string \<times> 'v) list option" where
  "node_input c k = map_option inputData (map_of (nodes c) k)"

text \<open>What the engine never writes.\<close>

definition same_frame :: "'v execution_context \<Rightarrow> 'v execution_context \<Rightarrow> bool" where
  "same_frame c c' =
     (status c' = status c \<and> connections c' = connections c \<and> workflowId c' = workflowId c \<and>
      exec_error c' = exec_error c \<and> exec_data c' = exec_data c \<and>
      map fst (nodes c') = map fst (nodes c))"

text \<open>
  What a call of \<^verbatim>\<open>executeNode\<close> that takes a context \<open>c\<close> to \<open>c'\<close> and ends
  with \<open>r\<close> has done, in terms of the calls of handlers \<open>new\<close> it has made.
\<close>

definition run_summary ::
  "'v execution_context \<Rightarrow> (string \<times> bool) list \<Rightarrow> error option \<Rightarrow> 'v execution_context \<Rightarrow> bool" where
  "run_summary c new r c' =
     (invoked c' = invoked c @ new \<and> distinct (map fst new) \<and>
      (\<forall>k \<in> fst ` set new. node_known c k \<and> \<not> node_executed c k) \<and>
      (\<forall>k. node_known c' k = node_known c k) \<and>
      (\<forall>k. node_executed c' k = (node_executed c k \<or> (k, True) \<in> set new)) \<and>
      (r = None \<longrightarrow> (\<forall>p \<in> set new. snd p)) \<and>
      (\<forall>k. (k, False) \<in> set new \<longrightarrow> node_status c' k = Some NError))"


section \<open>Node handlers\<close>

text \<open>
  What the handlers reach outside the repository: the runtime, the clock behind
  \<^verbatim>\<open>new Date().toISOString()\<close>, \<^verbatim>\<open>axios\<close>, the database behind
  \<^verbatim>\<open>storage.createLead\<close>, and the scoring service behind \<^verbatim>\<open>scoreLead\<close>. Each call
  is fulfilled with a value or rejected with an error.
\<close>

record 'n http_request =
  req_url :: string
  req_method :: "'n json"
  req_headers :: "(string \<times> string) list"
  req_data :: "'n json"

record 'n http_response =
  resp_status :: 'n
  resp_data :: "'n json"
  resp_headers :: "'n json"

record 'n externals =
  js :: "'n runtime"
  clock_now :: string
  axios :: "'n http_request \<Rightarrow> error + 'n http_response"
  createLead :: "(string \<times> 'n json) list \<Rightarrow> error + 'n json"
  scoreLead :: "'n json \<Rightarrow> error + 'n json"

text \<open>\<^verbatim>\<open>node.parameters.k\<close>, for the names the handlers read.\<close>

definition param :: "'n json node_type \<Rightarrow> string \<Rightarrow> 'n json" where
  "param node k = (case map_of (parameters node) k of None \<Rightarrow> JUndefined | Some v \<Rightarrow> v)"

text \<open>\<^verbatim>\<open>a || b\<close>.\<close>

definition js_or :: "('n::zero) json \<Rightarrow> 'n json \<Rightarrow> 'n json" where
  "js_or a b = (if falsy a then b else a)"

text \<open>The object every \<^verbatim>\<open>catch\<close> block of the action handlers returns.\<close>

definition failure_output ::
  "'n externals \<Rightarrow> error \<Rightarrow> (string \<times> 'n json) list \<Rightarrow> (string \<times> 'n json) list" where
  "failure_output X e input =
     [(''success'', JBool False), (''executed'', JBool True),
      (''timestamp'', JStr (clock_now X)), (''error'', JStr (message e)),
      (''data'', JObj input)]"

subsection \<open>Triggers\<close>

definition ScheduleTriggerHandler_execute :: "'n externals \<Rightarrow> 'n json handler" where
  "ScheduleTriggerHandler_execute X node input =
     Inr [(''success'', JBool True), (''triggered'', JBool True),
          (''timestamp'', JStr (clock_now X)), (''schedule'', param node ''schedule''),
          (''data'', JObj input)]"

definition WebhookTriggerHandler_execute :: "('n::zero) externals \<Rightarrow> 'n json handler" where
  "WebhookTriggerHandler_execute X node input =
     Inr [(''success'', JBool True), (''triggered'', JBool True),
          (''timestamp'', JStr (clock_now X)),
          (''webhook'', JObj [(''path'', param node ''path''),
                              (''method'', js_or (param node ''method'') (JStr ''POST''))]),
          (''data'', JObj input)]"

subsection \<open>HTTP Request\<close>

fun show_nat :: "nat \<Rightarrow> string" where
  "show_nat n =
     (if n < 10 then [char_of (48 + n)] else show_nat (n div 10) @ [char_of (48 + n mod 10)])"

declare show_nat.simps [simp del]

text \<open>\<^verbatim>\<open>Object.entries(v)\<close>, also what a spread copies.\<close>

fun own_entries :: "'n json \<Rightarrow> (string \<times> 'n json) list" where
  "own_entries (JObj al) = al"
| "own_entries (JArr xs) = zip (map show_nat [0..<length xs]) xs"
| "own_entries (JStr s) = zip (map show_nat [0..<length s]) (map (\<lambda>c. JStr [c]) s)"
| "own_entries v = []"

text \<open>
  A call of \<^verbatim>\<open>replacePlaceholders\<close> with an argument of any type: the guard
  \<^verbatim>\<open>if (!text) return ''\<close>, then \<^verbatim>\<open>text.replace\<close>, which only a string has.
\<close>

definition replacePlaceholders_any ::
  "('n::semiring_char_0) runtime \<Rightarrow> 'n json \<Rightarrow> (string \<times> 'n json) list \<Rightarrow> error + string" where
  "replacePlaceholders_any R text' input =
     (if falsy text' then Inr []
      else (case text' of
              JStr s \<Rightarrow> replacePlaceholders R s input
            | _ \<Rightarrow> Inl (TypeError ''text.replace is not a function'')))"

fun process_header_entries ::
  "('n::semiring_char_0) runtime \<Rightarrow> (string \<times> 'n json) list \<Rightarrow> (string \<times> 'n json) list \<Rightarrow>
   (string \<times> string) list \<Rightarrow> error + (string \<times> string) list" where
  "process_header_entries R [] input acc = Inr acc"
| "process_header_entries R ((k, v) # rest) input acc =
     (case replacePlaceholders_any R v input of
        Inl e \<Rightarrow> Inl e
      | Inr s \<Rightarrow> process_header_entries R rest input (js_assign k s acc))"

definition processHeaders ::
  "('n::semiring_char_0) runtime \<Rightarrow> 'n json \<Rightarrow> (string \<times> 'n json) list \<Rightarrow>
   error + (string \<times> string) list" where
  "processHeaders R headers input =
     (if falsy headers then Inr []
      else process_header_entries R (own_entries headers) input [])"

text \<open>The loop of \<^verbatim>\<open>processBody\<close> over the entries of an object.\<close>

fun process_body_entries ::
  "('n::semiring_char_0) runtime \<Rightarrow> (string \<times> 'n json) list \<Rightarrow> (string \<times> 'n json) list \<Rightarrow>
   (string \<times> 'n json) list \<Rightarrow> error + (string \<times> 'n json) list" where
  "process_body_entries R [] input acc = Inr acc"
| "process_body_entries R ((k, v) # rest) input acc =
     (case v of
        JStr s \<Rightarrow>
          (case replacePlaceholders R s input of
             Inl e \<Rightarrow> Inl e
           | Inr s' \<Rightarrow> process_body_entries R rest input (js_assign k (JStr s') acc))
      | _ \<Rightarrow> process_body_entries R rest input (js_assign k v acc))"

definition processBody ::
  "('n::semiring_char_0) runtime \<Rightarrow> 'n json \<Rightarrow> (string \<times> 'n json) list \<Rightarrow> error + 'n json" where
  "processBody R body input =
     (if falsy body then Inr JUndefined
      else (case body of
              JStr s \<Rightarrow> map_sum id JStr (replacePlaceholders R s input)
            | JObj al \<Rightarrow> map_sum id JObj (process_body_entries R (own_entries body) input [])
            | JArr xs \<Rightarrow> map_sum id JObj (process_body_entries R (own_entries body) input [])
            | _ \<Rightarrow> Inr body))"

text \<open>The \<^verbatim>\<open>try\<close> block of the HTTP Request handler up to the answer of \<^verbatim>\<open>axios\<close>.\<close>

definition http_call ::
  "('n::semiring_char_0) externals \<Rightarrow> 'n json node_type \<Rightarrow> (string \<times> 'n json) list \<Rightarrow>
   error + 'n http_response" where
  "http_call X node input =
     (case replacePlaceholders_any (js X) (param node ''url'') input of
        Inl e \<Rightarrow> Inl e
      | Inr processedUrl \<Rightarrow>
          (case processHeaders (js X) (param node ''headers'') input of
             Inl e \<Rightarrow> Inl e
           | Inr processedHeaders \<Rightarrow>
               (case processBody (js X) (param node ''body'') input of
                  Inl e \<Rightarrow> Inl e
                | Inr processedBody \<Rightarrow>
                    axios X
                      \<lparr>req_url = processedUrl,
                       req_method = js_or (param node ''method'') (JStr ''GET''),
                       req_headers = processedHeaders,
                       req_data = processedBody\<rparr>)))"

definition HttpRequestHandler_execute :: "('n::semiring_char_0) externals \<Rightarrow> 'n json handler" where
  "HttpRequestHandler_execute X node input =
     (case http_call X node input of
        Inr response \<Rightarrow>
          Inr [(''success'', JBool True), (''executed'', JBool True),
               (''timestamp'', JStr (clock_now X)),
               (''statusCode'', JNum (resp_status response)),
               (''data'', resp_data response), (''headers'', resp_headers response)]
      | Inl e \<Rightarrow> Inr (failure_output X e input))"

subsection \<open>Email Send\<close>

text \<open>
  The \<^verbatim>\<open>try\<close> block logs a line built by a template literal, which converts
  \<^verbatim>\<open>to\<close> and then \<^verbatim>\<open>subject\<close> to strings, and builds the answer. A conversion
  that raises ends in the \<^verbatim>\<open>catch\<close> block.
\<close>

definition EmailSendHandler_execute :: "('n::zero) externals \<Rightarrow> 'n json handler" where
  "EmailSendHandler_execute X node input =
     (case data_String (js X) (param node ''to'') of
        Inl e \<Rightarrow> Inr (failure_output X e input)
      | Inr to_string \<Rightarrow>
          (case data_String (js X) (param node ''subject'') of
             Inl e \<Rightarrow> Inr (failure_output X e input)
           | Inr subject_string \<Rightarrow>
               Inr [(''success'', JBool True), (''executed'', JBool True),
                    (''timestamp'', JStr (clock_now X)),
                    (''email'', JObj [(''to'', param node ''to''),
                                      (''from'', js_or (param node ''from'') (JStr ''noreply@example.com'')),
                                      (''subject'', param node ''subject''),
                                      (''body'', param node ''body'')]),
                    (''data'', JObj input)]))"

subsection \<open>Filter\<close>

text \<open>
  \<^verbatim>\<open>allConditionsMatch\<close> and \<^verbatim>\<open>anyConditionMatches\<close> are methods: the first
  argument is their \<^verbatim>\<open>this\<close>, which gives them \<^verbatim>\<open>evaluateCondition\<close> and is
  \<^verbatim>\<open>undefined\<close> (\<open>None\<close>) when the method is called detached from its object. The
  comparison operators of \<^verbatim>\<open>evaluateCondition\<close> are taken as given. The length of
  the conditions is an own property or, for a value that has none, \<^verbatim>\<open>undefined\<close>.
\<close>

type_synonym 'n evaluator = "'n json \<Rightarrow> (string \<times> 'n json) list \<Rightarrow> error + bool"

fun every_condition :: "('a \<Rightarrow> error + bool) \<Rightarrow> 'a list \<Rightarrow> error + bool" where
  "every_condition p [] = Inr True"
| "every_condition p (x # xs) =
     (case p x of Inl e \<Rightarrow> Inl e | Inr b \<Rightarrow> if b then every_condition p xs else Inr False)"

fun some_condition :: "('a \<Rightarrow> error + bool) \<Rightarrow> 'a list \<Rightarrow> error + bool" where
  "some_condition p [] = Inr False"
| "some_condition p (x # xs) =
     (case p x of Inl e \<Rightarrow> Inl e | Inr b \<Rightarrow> if b then Inr True else some_condition p xs)"

definition this_evaluateCondition ::
  "'n evaluator option \<Rightarrow> (string \<times> 'n json) list \<Rightarrow> 'n json \<Rightarrow> error + bool" where
  "this_evaluateCondition this input condition =
     (case this of
        None \<Rightarrow>
          Inl (TypeError ''Cannot read properties of undefined (reading 'evaluateCondition')'')
      | Some evaluateCondition \<Rightarrow> evaluateCondition condition input)"

definition allConditionsMatch ::
  "('n::semiring_char_0) evaluator option \<Rightarrow> 'n json \<Rightarrow> (string \<times> 'n json) list \<Rightarrow> error + bool" where
  "allConditionsMatch this conditions input =
     (if falsy conditions \<or> own_prop conditions ''length'' = Some (JNum 0) then Inr True
      else (case conditions of
              JArr cs \<Rightarrow> every_condition (this_evaluateCondition this input) cs
            | _ \<Rightarrow> Inl (TypeError ''conditions.every is not a function'')))"

definition anyConditionMatches ::
  "('n::semiring_char_0) evaluator option \<Rightarrow> 'n json \<Rightarrow> (string \<times> 'n json) list \<Rightarrow> error + bool" where
  "anyConditionMatches this conditions input =
     (if falsy conditions \<or> own_prop conditions ''length'' = Some (JNum 0) then Inr True
      else (case conditions of
              JArr cs \<Rightarrow> some_condition (this_evaluateCondition this input) cs
            | _ \<Rightarrow> Inl (TypeError ''conditions.some is not a function'')))"

text \<open>
  \<^verbatim>\<open>execute\<close> takes the method out of the handler
  (\<^verbatim>\<open>const combine = combinator === 'OR' ? this.anyConditionMatches : this.allConditionsMatch\<close>)
  and calls \<^verbatim>\<open>combine(conditions, input)\<close>, so the method runs without a
  \<^verbatim>\<open>this\<close>.
\<close>

definition FilterHandler_execute :: "('n::semiring_char_0) externals \<Rightarrow> 'n json handler" where
  "FilterHandler_execute X node input =
     (let conditions = param node ''conditions'';
          combinator = param node ''combinator'';
          combine = (if combinator = JStr ''OR'' then anyConditionMatches else allConditionsMatch)
      in case combine None conditions input of
           Inr matches \<Rightarrow>
             Inr [(''success'', JBool True), (''executed'', JBool True),
                  (''timestamp'', JStr (clock_now X)), (''matches'', JBool matches),
                  (''data'', if matches then JObj input else JNull)]
         | Inl e \<Rightarrow> Inr (failure_output X e input))"

subsection \<open>Lead Create and Lead Score\<close>

definition LeadCreateHandler_execute :: "'n externals \<Rightarrow> 'n json handler" where
  "LeadCreateHandler_execute X node input =
     (let leadData = param node ''leadData'';
          mergedLeadData =
            spread (spread [] (own_entries leadData))
              (own_entries (case map_of input ''leadData'' of None \<Rightarrow> JUndefined | Some v \<Rightarrow> v))
      in case createLead X mergedLeadData of
           Inr lead \<Rightarrow>
             Inr [(''success'', JBool True), (''executed'', JBool True),
                  (''timestamp'', JStr (clock_now X)), (''lead'', lead),
                  (''data'', JObj (spread (spread [] input) [(''lead'', lead)]))]
         | Inl e \<Rightarrow> Inr (failure_output X e input))"

definition LeadScoreHandler_execute :: "('n::zero) externals \<Rightarrow> 'n json handler" where
  "LeadScoreHandler_execute X node input =
     (let leadData =
            js_or (js_or (case map_of input ''lead'' of None \<Rightarrow> JUndefined | Some v \<Rightarrow> v)
                         (case map_of input ''leadData'' of None \<Rightarrow> JUndefined | Some v \<Rightarrow> v))
                  (JObj input)
      in case scoreLead X leadData of
           Inr scoredLead \<Rightarrow>
             Inr [(''success'', JBool True), (''executed'', JBool True),
                  (''timestamp'', JStr (clock_now X)), (''scoredLead'', scoredLead),
                  (''data'', JObj (spread (spread [] input) [(''scoredLead'', scoredLead)]))]
         | Inl e \<Rightarrow> Inr (failure_output X e input))"

subsection \<open>The registry as the router fills it\<close>

definition default_registry ::
  "('n::semiring_char_0) externals \<Rightarrow> string \<Rightarrow> 'n json handler option" where
  "default_registry X t =
     (if t = ''schedule.trigger'' then Some (ScheduleTriggerHandler_execute X)
      else if t = ''webhook.trigger'' then Some (WebhookTriggerHandler_execute X)
      else if t = ''http.request'' then Some (HttpRequestHandler_execute X)
      else if t = ''email.send'' then Some (EmailSendHandler_execute X)
      else if t = ''filter'' then Some (FilterHandler_execute X)
      else if t = ''lead.create'' then Some (LeadCreateHandler_execute X)
      else if t = ''lead.score'' then Some (LeadScoreHandler_execute X)
      else None)"

section \<open>The webhook route\<close>












section \<open>Example inputs\<close>

text \<open>
  A runtime for the examples. Of the members that values inherit it has
  \<^verbatim>\<open>constructor\<close> and the name of a constructor; the examples read no other inherited
  member. Numbers are integers, written in decimal.
\<close>

definition show_int :: "int \<Rightarrow> string" where
  "show_int i = (if i < 0 then CHR ''-'' # show_nat (nat (- i)) else show_nat (nat i))"

definition example_runtime :: "int runtime" where
  "example_runtime =
     \<lparr>number_string = show_int,
      inherited = (\<lambda>v k.
        if k = ''constructor'' then
          (case v of
             Data (JObj al) \<Rightarrow> Inr (Builtin ''Object'')
           | Data (JArr xs) \<Rightarrow> Inr (Builtin ''Array'')
           | Data (JStr s) \<Rightarrow> Inr (Builtin ''String'')
           | Data (JNum n) \<Rightarrow> Inr (Builtin ''Number'')
           | Data (JBool b) \<Rightarrow> Inr (Builtin ''Boolean'')
           | _ \<Rightarrow> Inr (Builtin ''Function''))
        else if k = ''name'' then
          (case v of Builtin b \<Rightarrow> Inr (Data (JStr b)) | _ \<Rightarrow> Inr (Data JUndefined))
        else Inr (Data JUndefined)),
      builtin_string = (\<lambda>b. Inr (''function '' @ b @ ''() { [native code] }''))\<rparr>"

text \<open>Collaborators outside the repository that all fail.\<close>

definition demo_externals :: "int externals" where
  "demo_externals =
     \<lparr>js = example_runtime,
      clock_now = ''2024-01-01T00:00:00.000Z'',
      axios = (\<lambda>r. Inl (Error ''connect ECONNREFUSED'')),
      createLead = (\<lambda>l. Inl (Error ''database unavailable'')),
      scoreLead = (\<lambda>l. Inl (Error ''scoring unavailable''))\<rparr>"




text \<open>
  The method \<^verbatim>\<open>getWorkflow\<close> of the repository's storage is declared \<^verbatim>\<open>async\<close>: the
  expression \<^verbatim>\<open>storage.getWorkflow(id)\<close> is a promise. For comparison, a gateway that
  answers synchronously from a list of stored workflows, as a test double does.
\<close>

definition async_storage :: "nat \<Rightarrow> 'v storage_result" where
  "async_storage i = RetPromise"

definition sync_storage :: "'v workflow list \<Rightarrow> nat \<Rightarrow> 'v storage_result" where
  "sync_storage ws i =
     (case find (\<lambda>w. wid w = i) ws of None \<Rightarrow> RetUndefined | Some w \<Rightarrow> RetWorkflow w)"

text \<open>The registry as the router fills it, with the storage of the repository.\<close>

definition repository_collaborators :: "int json collaborators" where
  "repository_collaborators =
     \<lparr>registry = default_registry demo_externals, getWorkflow = async_storage\<rparr>"

definition demo_collaborators :: "int json workflow list \<Rightarrow> int json collaborators" where
  "demo_collaborators ws = \<lparr>registry = default_registry demo_externals, getWorkflow = sync_storage ws\<rparr>"

definition edge :: "string \<Rightarrow> string \<Rightarrow> connection_type" where
  "edge a b = \<lparr>source = a, sourceHandle = None, target = b, targetHandle = None\<rparr>"

definition run_options :: "nat \<Rightarrow> 'v execution_options" where
  "run_options i = \<lparr>opt_workflowId = i, triggerData = None, triggerNodeId = None\<rparr>"


text \<open>A webhook trigger and an email node that point at each other.\<close>

definition cycle_workflow :: "int json workflow" where
  "cycle_workflow =
     \<lparr>wid = 1, active = True,
      wf_nodes = [\<lparr>nid = ''A'', nname = ''Webhook'', ntype = ''webhook.trigger'',
                   parameters = [(''path'', JStr ''lead'')]\<rparr>,
                  \<lparr>nid = ''B'', nname = ''Mail'', ntype = ''email.send'',
                   parameters = [(''to'', JStr ''a@b.com'')]\<rparr>],
      wf_connections = [edge ''A'' ''B'', edge ''B'' ''A'']\<rparr>"


text \<open>A workflow without a trigger node.\<close>

definition no_trigger_workflow :: "int json workflow" where
  "no_trigger_workflow =
     \<lparr>wid = 3, active = True,
      wf_nodes = [\<lparr>nid = ''M'', nname = ''Mail'', ntype = ''email.send'', parameters = []\<rparr>],
      wf_connections = []\<rparr>"


section \<open>Properties of the placeholder replacement\<close>
















section \<open>The traversal, case by case\<close>

lemma executeNode_cases [case_names unknown visited unresolved rejected fulfilled]:
  obtains
    (unknown) "map_of (nodes c) n = None"
      "executeNode E c n = (Some (Error (''Node '' @ n @ '' not found in execution'')), c)"
  | (visited) ne where "map_of (nodes c) n = Some ne" "executed ne"
      "executeNode E c n = (None, c)"
  | (unresolved) ne e where "map_of (nodes c) n = Some ne" "\<not> executed ne"
      "resolve_handler E (start_node n c) n = Inl e"
      "executeNode E c n = (Some e, fail_node n e (start_node n c))"
  | (rejected) ne node handler e where "map_of (nodes c) n = Some ne" "\<not> executed ne"
      "resolve_handler E (start_node n c) n = Inr (node, handler)"
      "handler node (inputData ne) = Inl e"
      "executeNode E c n = (Some e, fail_node n e (log_call n False (start_node n c)))"
  | (fulfilled) ne node handler out r c' where "map_of (nodes c) n = Some ne" "\<not> executed ne"
      "resolve_handler E (start_node n c) n = Inr (node, handler)"
      "handler node (inputData ne) = Inr out"
      "executeNodes E (propagate_output n out (log_call n True (start_node n c)))
         (findNextNodes c n) = (r, c')"
      "executeNode E c n = (r, case r of None \<Rightarrow> c' | Some e \<Rightarrow> fail_node n e c')"
proof (cases "map_of (nodes c) n")
  case None
  then show ?thesis by (intro unknown) (simp_all add: executeNode.simps)
next
  case (Some ne)
  show ?thesis
  proof (cases "executed ne")
    case True
    with Some show ?thesis by (intro visited [of ne]) (simp_all add: executeNode.simps)
  next
    case False
    show ?thesis
    proof (cases "resolve_handler E (start_node n c) n")
      case (Inl e)
      with Some False show ?thesis
        by (intro unresolved [of ne e]) (simp_all add: executeNode.simps)
    next
      case (Inr b)
      obtain node handler where b: "b = (node, handler)" by (cases b)
      show ?thesis
      proof (cases "handler node (inputData ne)")
        case (Inl e)
        with Some False Inr b show ?thesis
          by (intro rejected [of ne node handler e]) (simp_all add: executeNode.simps)
      next
        case out: (Inr out)
        obtain r c' where r: "executeNodes E
            (propagate_output n out (log_call n True (start_node n c))) (findNextNodes c n) = (r, c')"
          by (cases "executeNodes E
            (propagate_output n out (log_call n True (start_node n c))) (findNextNodes c n)")
        with Some False Inr b out show ?thesis
          by (intro fulfilled [of ne node handler out r c'])
             (simp_all add: executeNode.simps split: option.splits)
      qed
    qed
  qed
qed

lemma traversal_induct [case_names visit nil cons]:
  assumes "\<And>E c n.
      (\<And>ne node handler out.
          map_of (nodes c) n = Some ne \<Longrightarrow> \<not> executed ne \<Longrightarrow>
          resolve_handler E (start_node n c) n = Inr (node, handler) \<Longrightarrow>
          handler node (inputData ne) = Inr out \<Longrightarrow>
          Q E (propagate_output n out (log_call n True (start_node n c))) (findNextNodes c n)) \<Longrightarrow>
      P E c n"
    and "\<And>E c. Q E c []"
    and "\<And>E c n rest.
      P E c n \<Longrightarrow> (\<And>c'. executeNode E c n = (None, c') \<Longrightarrow> Q E c' rest) \<Longrightarrow> Q E c (n # rest)"
  shows "P E c n" and "Q E c ns"
proof (induct E c n and E c ns rule: executeNode_executeNodes.induct)
  case (1 E c nodeId)
  show ?case
  proof (rule assms(1))
    fix ne node handler out
    assume "map_of (nodes c) nodeId = Some ne" "\<not> executed ne"
      "resolve_handler E (start_node nodeId c) nodeId = Inr (node, handler)"
      "handler node (inputData ne) = Inr out"
    then show "Q E (propagate_output nodeId out (log_call nodeId True (start_node nodeId c)))
        (findNextNodes c nodeId)"
      using 1 [of ne "(node, handler)" node handler out] by simp
  qed
next
  case (2 E c)
  show ?case by (rule assms(2))
next
  case (3 E c nextNodeId rest)
  show ?case
  proof (rule assms(3))
    show "P E c nextNodeId" by (rule 3(1))
  next
    fix c'
    assume "executeNode E c nextNodeId = (None, c')"
    then show "Q E c' rest" using 3(2) [of None c'] by simp
  qed
qed

lemma executeNodes_Cons:
  "executeNodes E c (n # rest) =
     (case executeNode E c n of (None, c') \<Rightarrow> executeNodes E c' rest | (Some e, c') \<Rightarrow> (Some e, c'))"
  by simp

lemma map_fst_map_entry: "map fst (AList.map_entry k f al) = map fst al"
  by (induction al) auto



lemma same_frame_prepare_inputs [simp]:
  "same_frame c (prepare_inputs ns out c') = same_frame c c'"
  by (induction ns out c' rule: prepare_inputs.induct)
     (auto simp: same_frame_def update_node_def map_fst_map_entry)

lemma same_frame_ops [simp]:
  "same_frame c (start_node k c') = same_frame c c'"
  "same_frame c (fail_node k e c') = same_frame c c'"
  "same_frame c (log_call k ok c') = same_frame c c'"
  "same_frame c (complete_node k out c') = same_frame c c'"
  by (simp_all add: same_frame_def start_node_def fail_node_def log_call_def complete_node_def
      update_node_def map_fst_map_entry)

lemma same_frame_propagate_output [simp]:
  "same_frame c (propagate_output k out c') = same_frame c c'"
  by (simp add: propagate_output_def)


section \<open>Node records under the steps of the engine\<close>

lemma map_of_update_node:
  "map_of (nodes (update_node k f c)) k' =
     (if k' = k then map_option f (map_of (nodes c) k) else map_of (nodes c) k')"
  by (auto simp: update_node_def map_of_map_entry split: option.splits)

lemma map_of_prepare_inputs:
  "map_of (nodes (prepare_inputs ns out c)) k =
     map_option (\<lambda>ne. ne\<lparr>inputData := fold (\<lambda>n a. if n = k then spread a out else a) ns (inputData ne)\<rparr>)
       (map_of (nodes c) k)"
proof (induction ns out c rule: prepare_inputs.induct)
  case (1 out c)
  show ?case by (cases "map_of (nodes c) k") simp_all
next
  case (2 nextNodeId rest out c)
  show ?case
    using 2
    by (cases "map_of (nodes c) k"; cases "k = nextNodeId")
       (simp_all add: map_of_update_node)
qed

lemma invoked_ops [simp]:
  "invoked (update_node k f c) = invoked c"
  "invoked (start_node k c) = invoked c"
  "invoked (fail_node k e c) = invoked c"
  "invoked (complete_node k out c) = invoked c"
  "invoked (log_call k ok c) = invoked c @ [(k, ok)]"
  by (simp_all add: update_node_def start_node_def fail_node_def complete_node_def log_call_def)

lemma invoked_prepare_inputs [simp]: "invoked (prepare_inputs ns out c) = invoked c"
  by (induction ns out c rule: prepare_inputs.induct) simp_all

lemma invoked_propagate_output [simp]: "invoked (propagate_output k out c) = invoked c"
  by (simp add: propagate_output_def)

lemma node_known_ops [simp]:
  "node_known (start_node k c) k' = node_known c k'"
  "node_known (fail_node k e c) k' = node_known c k'"
  "node_known (complete_node k out c) k' = node_known c k'"
  "node_known (log_call k ok c) k' = node_known c k'"
  "node_known (prepare_inputs ns out c) k' = node_known c k'"
  "node_known (propagate_output k out c) k' = node_known c k'"
  by (auto simp: node_known_def start_node_def fail_node_def complete_node_def
      log_call_def propagate_output_def map_of_update_node map_of_prepare_inputs)

lemma node_executed_ops [simp]:
  "node_executed (start_node k c) k' = node_executed c k'"
  "node_executed (fail_node k e c) k' = node_executed c k'"
  "node_executed (log_call k ok c) k' = node_executed c k'"
  "node_executed (prepare_inputs ns out c) k' = node_executed c k'"
  by (auto simp: node_executed_def start_node_def fail_node_def
      log_call_def map_of_update_node map_of_prepare_inputs split: option.splits)

lemma node_executed_complete_node [simp]:
  "node_executed (complete_node n out c) k = (if k = n then node_known c n else node_executed c k)"
  by (auto simp: node_executed_def node_known_def complete_node_def map_of_update_node
      split: option.splits)

lemma node_executed_propagate_output [simp]:
  "node_executed (propagate_output n out c) k = (if k = n then node_known c n else node_executed c k)"
  by (simp add: propagate_output_def)

lemma node_status_fail_node:
  "node_status (fail_node n e c) k =
     (if k = n \<and> node_known c n then Some NError else node_status c k)"
  by (auto simp: node_status_def node_known_def fail_node_def map_of_update_node
      split: option.splits)

lemma node_status_log_call [simp]: "node_status (log_call k ok c) k' = node_status c k'"
  by (simp add: node_status_def log_call_def)

section \<open>Summaries of the steps\<close>

lemma run_summary_refl: "run_summary c [] r c"
  by (simp add: run_summary_def)

lemma run_summary_unresolved: "run_summary c [] (Some e) (fail_node n e (start_node n c))"
  by (simp add: run_summary_def)

lemma run_summary_rejected:
  assumes "node_known c n" "\<not> node_executed c n"
  shows "run_summary c [(n, False)] (Some e) (fail_node n e (log_call n False (start_node n c)))"
  using assms by (simp add: run_summary_def node_status_fail_node)

lemma run_summary_fulfilled:
  assumes "node_known c n" "\<not> node_executed c n"
    and "run_summary (propagate_output n out (log_call n True (start_node n c))) new r c'"
  shows "run_summary c ((n, True) # new) r (case r of None \<Rightarrow> c' | Some e \<Rightarrow> fail_node n e c')"
proof -
  let ?c4 = "propagate_output n out (log_call n True (start_node n c))"
  from assms(3) have s:
    "invoked c' = invoked ?c4 @ new" "distinct (map fst new)"
    "\<And>k. node_known c' k = node_known ?c4 k"
    "\<And>k. node_executed c' k = (node_executed ?c4 k \<or> (k, True) \<in> set new)"
    "r = None \<Longrightarrow> \<forall>p \<in> set new. snd p"
    "\<And>k. (k, False) \<in> set new \<Longrightarrow> node_status c' k = Some NError"
    unfolding run_summary_def by blast+
  from assms(3) have "\<forall>k \<in> fst ` set new. node_known ?c4 k \<and> \<not> node_executed ?c4 k"
    unfolding run_summary_def by blast
  then have "\<forall>k \<in> fst ` set new. node_known c k \<and> k \<noteq> n \<and> \<not> node_executed c k"
    using assms(1) by (auto split: if_splits)
  then have pre: "\<And>k ok. (k, ok) \<in> set new \<Longrightarrow> node_known c k \<and> k \<noteq> n \<and> \<not> node_executed c k"
    by force
  have neq: "\<And>k ok. (k, ok) \<in> set new \<Longrightarrow> k \<noteq> n"
    using pre by blast
  then have notin: "n \<notin> fst ` set new" by force
  have known: "\<forall>k \<in> fst ` set ((n, True) # new). node_known c k \<and> \<not> node_executed c k"
  proof
    fix k assume "k \<in> fst ` set ((n, True) # new)"
    then consider "k = n" | ok where "(k, ok) \<in> set new" by force
    then show "node_known c k \<and> \<not> node_executed c k"
    proof cases
      case 1
      with assms show ?thesis by simp
    next
      case 2
      from pre [OF 2] show ?thesis by simp
    qed
  qed
  have ex: "\<forall>k. node_executed c' k = (node_executed c k \<or> (k, True) \<in> set ((n, True) # new))"
    using s(4) assms(1) by auto
  have inv: "invoked c' = invoked c @ (n, True) # new" using s(1) by simp
  have dist: "distinct (map fst ((n, True) # new))" using s(2) notin by simp
  have kn: "\<forall>k. node_known c' k = node_known c k" using s(3) by simp
  show ?thesis
  proof (cases r)
    case None
    have "\<forall>p \<in> set ((n, True) # new). snd p" using s(5) [OF None] by simp
    moreover have "\<forall>k. (k, False) \<in> set ((n, True) # new) \<longrightarrow> node_status c' k = Some NError"
      using s(6) by simp
    ultimately show ?thesis
      unfolding run_summary_def using None inv dist known ex kn by simp
  next
    case (Some e)
    have "\<forall>k. (k, False) \<in> set ((n, True) # new) \<longrightarrow>
        node_status (fail_node n e c') k = Some NError"
      using s(6) by (simp add: node_status_fail_node)
    then show ?thesis
      unfolding run_summary_def using Some inv dist known ex kn by simp
  qed
qed

lemma run_summary_seq:
  assumes "run_summary c new1 None c1" "run_summary c1 new2 r c2"
  shows "run_summary c (new1 @ new2) r c2"
proof -
  from assms(1) have a:
    "invoked c1 = invoked c @ new1" "distinct (map fst new1)"
    "\<And>k. node_known c1 k = node_known c k"
    "\<And>k. node_executed c1 k = (node_executed c k \<or> (k, True) \<in> set new1)"
    "\<And>p. p \<in> set new1 \<Longrightarrow> snd p"
    unfolding run_summary_def by blast+
  from assms(1) have "\<forall>k \<in> fst ` set new1. node_known c k \<and> \<not> node_executed c k"
    unfolding run_summary_def by blast
  then have a3: "\<And>k ok. (k, ok) \<in> set new1 \<Longrightarrow> node_known c k \<and> \<not> node_executed c k"
    by force
  from assms(2) have b:
    "invoked c2 = invoked c1 @ new2" "distinct (map fst new2)"
    "\<And>k. node_known c2 k = node_known c1 k"
    "\<And>k. node_executed c2 k = (node_executed c1 k \<or> (k, True) \<in> set new2)"
    "r = None \<Longrightarrow> \<forall>p \<in> set new2. snd p"
    "\<And>k. (k, False) \<in> set new2 \<Longrightarrow> node_status c2 k = Some NError"
    unfolding run_summary_def by blast+
  from assms(2) have "\<forall>k \<in> fst ` set new2. node_known c1 k \<and> \<not> node_executed c1 k"
    unfolding run_summary_def by blast
  then have b3: "\<And>k ok. (k, ok) \<in> set new2 \<Longrightarrow> node_known c1 k \<and> \<not> node_executed c1 k"
    by force
  have all_true: "\<And>k ok. (k, ok) \<in> set new1 \<Longrightarrow> ok" using a(5) by force
  have disj: "fst ` set new1 \<inter> fst ` set new2 = {}"
  proof (rule ccontr)
    assume "fst ` set new1 \<inter> fst ` set new2 \<noteq> {}"
    then obtain k ok1 ok2 where k: "(k, ok1) \<in> set new1" "(k, ok2) \<in> set new2" by force
    from all_true [OF k(1)] k(1) have "(k, True) \<in> set new1" by simp
    with a(4) have "node_executed c1 k" by simp
    with b3 [OF k(2)] show False by simp
  qed
  have nofalse: "\<And>k. (k, False) \<notin> set new1" using all_true by blast
  have known: "\<forall>k \<in> fst ` set (new1 @ new2). node_known c k \<and> \<not> node_executed c k"
  proof
    fix k assume "k \<in> fst ` set (new1 @ new2)"
    then consider ok where "(k, ok) \<in> set new1" | ok where "(k, ok) \<in> set new2" by force
    then show "node_known c k \<and> \<not> node_executed c k"
    proof cases
      case 1
      from a3 [OF 1] show ?thesis .
    next
      case 2
      from b3 [OF 2] a(3) a(4) show ?thesis by simp
    qed
  qed
  have "invoked c2 = invoked c @ new1 @ new2" using a(1) b(1) by simp
  moreover have "distinct (map fst (new1 @ new2))" using a(2) b(2) disj by simp
  moreover have "\<forall>k. node_known c2 k = node_known c k" using a(3) b(3) by simp
  moreover have "\<forall>k. node_executed c2 k = (node_executed c k \<or> (k, True) \<in> set (new1 @ new2))"
    using a(4) b(4) by auto
  moreover have "r = None \<longrightarrow> (\<forall>p \<in> set (new1 @ new2). snd p)"
    using a(5) b(5) by auto
  moreover have "\<forall>k. (k, False) \<in> set (new1 @ new2) \<longrightarrow> node_status c2 k = Some NError"
    using nofalse b(6) by auto
  ultimately show ?thesis
    unfolding run_summary_def using known by blast
qed

lemma executeNode_run_summary:
  "\<exists>new. run_summary c new (fst (executeNode E c n)) (snd (executeNode E c n))"
  "\<exists>new. run_summary c new (fst (executeNodes E c ns)) (snd (executeNodes E c ns))"
proof (induct E c n and E c ns rule: traversal_induct)
  case (visit E c n)
  show ?case
  proof (cases rule: executeNode_cases [of c n E])
    case unknown
    then show ?thesis using run_summary_refl by fastforce
  next
    case (visited ne)
    then show ?thesis using run_summary_refl by fastforce
  next
    case (unresolved ne e)
    then show ?thesis using run_summary_unresolved by fastforce
  next
    case (rejected ne node handler e)
    then have "node_known c n" "\<not> node_executed c n"
      by (simp_all add: node_known_def node_executed_def)
    from run_summary_rejected [OF this] rejected(5) show ?thesis by fastforce
  next
    case (fulfilled ne node handler out r c')
    then have k: "node_known c n" "\<not> node_executed c n"
      by (simp_all add: node_known_def node_executed_def)
    from visit [OF fulfilled(1-4)] fulfilled(5)
    obtain new where
      "run_summary (propagate_output n out (log_call n True (start_node n c))) new r c'"
      by auto
    from run_summary_fulfilled [OF k this] fulfilled(6) show ?thesis by fastforce
  qed
next
  case (nil E c)
  show ?case using run_summary_refl by fastforce
next
  case (cons E c n rest)
  obtain r c' where r: "executeNode E c n = (r, c')" by (cases "executeNode E c n")
  from cons(1) r obtain new1 where n1: "run_summary c new1 r c'" by auto
  show ?case
  proof (cases r)
    case None
    from cons(2) [OF r [unfolded None]]
    obtain new2 where "run_summary c' new2 (fst (executeNodes E c' rest)) (snd (executeNodes E c' rest))"
      by auto
    from run_summary_seq [OF n1 [unfolded None] this] r None show ?thesis by fastforce
  next
    case (Some e)
    with n1 r show ?thesis by fastforce
  qed
qed

section \<open>The initial context\<close>

lemma map_of_insert_index:
  "k \<notin> fst ` set al \<Longrightarrow> map_of (insert_index k v al) = (map_of al)(k \<mapsto> v)"
proof (induction al)
  case Nil
  show ?case by simp
next
  case (Cons p al)
  then have "fst p \<noteq> k" by auto
  with Cons show ?case by (cases p) (auto simp: fun_upd_twist)
qed

lemma map_of_snoc_new:
  assumes "k \<notin> fst ` set al"
  shows "map_of (al @ [(k, v)]) = (map_of al)(k \<mapsto> v)"
proof
  fix x
  from assms have "map_of al k = None" by (simp add: map_of_eq_None_iff)
  then show "map_of (al @ [(k, v)]) x = ((map_of al)(k \<mapsto> v)) x"
    by (cases "map_of al x") (auto simp: map_add_def)
qed

lemma map_of_js_set: "map_of (js_set k v al) = (map_of al)(k \<mapsto> v)"
  by (simp add: js_set_def update_conv' map_of_insert_index map_of_snoc_new del: map_of_append)

lemma set_insert_index: "set (insert_index k v al) = insert (k, v) (set al)"
  by (induction al) auto

lemma set_alist_update_subset: "set (AList.update k v al) \<subseteq> insert (k, v) (set al)"
  by (induction al) auto

lemma set_js_set_subset: "set (js_set k v al) \<subseteq> insert (k, v) (set al)"
  using set_alist_update_subset [of k v al]
  by (auto simp: js_set_def set_insert_index)

lemma set_js_assign_subset: "set (js_assign k v al) \<subseteq> insert (k, v) (set al)"
  using set_js_set_subset [of k v al] by (auto simp: js_assign_def)

lemma set_initial_nodes:
  "set (fold (\<lambda>node. js_assign (nid node) (pending_node node)) ns al)
     \<subseteq> set al \<union> (\<lambda>node. (nid node, pending_node node)) ` set ns"
proof (induction ns arbitrary: al)
  case Nil
  show ?case by simp
next
  case (Cons node ns)
  from Cons [of "js_assign (nid node) (pending_node node) al"]
    set_js_assign_subset [of "nid node" "pending_node node" al]
  show ?case by auto
qed

lemma initial_nodes_subset:
  "set (nodes (initial_context w opts)) \<subseteq> (\<lambda>node. (nid node, pending_node node)) ` set (wf_nodes w)"
  using set_initial_nodes [of "wf_nodes w" "[]"] by (simp add: initial_context_def)

lemma initial_context_simps [simp]:
  "invoked (initial_context w opts) = []"
  "status (initial_context w opts) = XRunning"
  "exec_error (initial_context w opts) = None"
  "connections (initial_context w opts) = wf_connections w"
  "workflowId (initial_context w opts) = opt_workflowId opts"
  by (simp_all add: initial_context_def)

lemma initial_node_known:
  "node_known (initial_context w opts) k \<Longrightarrow> k \<in> nid ` set (wf_nodes w)"
proof -
  assume "node_known (initial_context w opts) k"
  then obtain ne where "(k, ne) \<in> set (nodes (initial_context w opts))"
    by (auto simp: node_known_def dest: map_of_SomeD)
  with initial_nodes_subset [of w opts] show ?thesis by auto
qed

lemma initial_not_executed [simp]: "\<not> node_executed (initial_context w opts) k"
proof
  assume "node_executed (initial_context w opts) k"
  then obtain ne where "(k, ne) \<in> set (nodes (initial_context w opts))" "executed ne"
    by (auto simp: node_executed_def split: option.splits dest: map_of_SomeD)
  with initial_nodes_subset [of w opts] show False by (auto simp: pending_node_def)
qed

lemma initial_no_trigger:
  assumes "\<forall>node \<in> set (wf_nodes w). \<not> includes_str (ntype node) ''trigger''"
  shows "find (\<lambda>n. includes_str (n_type n) ''trigger'') (map snd (nodes (initial_context w opts))) = None"
proof -
  have "\<And>ne. ne \<in> snd ` set (nodes (initial_context w opts)) \<Longrightarrow>
      \<not> includes_str (n_type ne) ''trigger''"
    using initial_nodes_subset [of w opts] assms by (auto simp: pending_node_def)
  then show ?thesis by (auto simp: find_None_iff)
qed

section \<open>A whole execution\<close>

lemma projections_final_error [simp]:
  "invoked (c\<lparr>status := s, exec_error := e\<rparr>) = invoked c"
  "node_known (c\<lparr>status := s, exec_error := e\<rparr>) k = node_known c k"
  "node_executed (c\<lparr>status := s, exec_error := e\<rparr>) k = node_executed c k"
  "node_status (c\<lparr>status := s, exec_error := e\<rparr>) k = node_status c k"
  "node_input (c\<lparr>status := s, exec_error := e\<rparr>) k = node_input c k"
  by (simp_all add: node_known_def node_executed_def node_status_def node_input_def)

text \<open>An execution either finds no start node or is one call of \<^verbatim>\<open>executeNode\<close>.\<close>

lemma execute_cases [case_names no_start traversal]:
  obtains
    (no_start) e where
      "execute E w opts =
         \<lparr>final = (initial_context w opts)\<lparr>status := XError, exec_error := Some e\<rparr>,
          db_writes = [InsertExecution XRunning, UpdateExecution XError None (Some e)]\<rparr>"
  | (traversal) start r c' where
      "executeNode E (initial_context w opts) start = (r, c')"
      "execute E w opts =
         (case r of
            None \<Rightarrow> \<lparr>final = c',
                      db_writes = [InsertExecution XRunning,
                                   UpdateExecution (status c') (Some (formatResults c')) None]\<rparr>
          | Some e \<Rightarrow> \<lparr>final = c'\<lparr>status := XError, exec_error := Some e\<rparr>,
                        db_writes = [InsertExecution XRunning,
                                     UpdateExecution XError None (Some e)]\<rparr>)"
proof -
  let ?c0 = "initial_context w opts"
  let ?sel = "if triggerNodeId opts \<noteq> None \<and> triggerNodeId opts \<noteq> Some []
            then getNodeById E ?c0 (triggerNodeId opts)
            else getNodeById E ?c0
                   (map_option n_id
                      (find (\<lambda>n. includes_str (n_type n) ''trigger'') (map snd (nodes ?c0))))"
  show ?thesis
  proof (cases ?sel)
    case (Inl e)
    then show ?thesis
      by (intro no_start [of e]) (simp add: execute_def executeWorkflow_def)
  next
    case (Inr found)
    show ?thesis
    proof (cases found)
      case None
      with Inr show ?thesis
        by (intro no_start [of "Error ''No trigger node found''"])
           (simp add: execute_def executeWorkflow_def)
    next
      case (Some startNode)
      obtain r c' where r: "executeNode E ?c0 (nid startNode) = (r, c')"
        by (cases "executeNode E ?c0 (nid startNode)")
      with Inr Some show ?thesis
        by (intro traversal [of "nid startNode" r c'])
           (simp_all add: execute_def executeWorkflow_def split: option.splits)
    qed
  qed
qed

lemma execute_run_summary:
  "\<exists>r. run_summary (initial_context w opts) (invoked (final (execute E w opts))) r
         (final (execute E w opts))"
proof (cases rule: execute_cases [of E w opts])
  case (no_start e)
  then show ?thesis by (auto simp: run_summary_def)
next
  case (traversal start r c')
  from executeNode_run_summary(1) [of "initial_context w opts" E start] traversal(1)
  obtain new where s: "run_summary (initial_context w opts) new r c'" by auto
  then have i: "invoked c' = new" by (simp add: run_summary_def)
  show ?thesis
  proof (cases r)
    case None
    with traversal(2) s i show ?thesis by auto
  next
    case (Some e)
    with traversal(2) s i have "run_summary (initial_context w opts)
        (invoked (final (execute E w opts))) r (final (execute E w opts))"
      by (simp add: run_summary_def)
    then show ?thesis ..
  qed
qed

section \<open>Merging along a diamond\<close>

lemma keys_js_set: "fst ` set (js_set k v al) = insert k (fst ` set al)"
  by (auto simp: js_set_def dom_update set_insert_index)

lemma spread_keys: "fst ` set (spread a b) = fst ` set a \<union> fst ` set b"
  unfolding spread_def
proof (induction b arbitrary: a)
  case Nil
  show ?case by simp
next
  case (Cons p b)
  obtain k v where p: "p = (k, v)" by (cases p)
  have "fst ` set (fold (\<lambda>(k, v). js_set k v) b (js_set k v a)) =
      fst ` set (js_set k v a) \<union> fst ` set b"
    by (rule Cons.IH)
  then show ?case unfolding p keys_js_set by auto
qed

lemma map_add_upd_left:
  assumes "g k = None"
  shows "f(k \<mapsto> v) ++ g = f ++ g(k \<mapsto> v)"
proof
  fix x
  show "(f(k \<mapsto> v) ++ g) x = (f ++ g(k \<mapsto> v)) x"
    using assms by (cases "g x") (auto simp: map_add_def)
qed

lemma map_of_spread:
  "distinct (map fst b) \<Longrightarrow> map_of (spread a b) = map_of a ++ map_of b"
  unfolding spread_def
proof (induction b arbitrary: a)
  case Nil
  show ?case by simp
next
  case (Cons p b)
  obtain k v where p: "p = (k, v)" by (cases p)
  from Cons.prems p have d: "k \<notin> fst ` set b" "distinct (map fst b)" by auto
  then have n: "map_of b k = None" by (simp add: map_of_eq_None_iff)
  have "map_of (fold (\<lambda>(k, v). js_set k v) (p # b) a) =
      map_of (fold (\<lambda>(k, v). js_set k v) b (js_set k v a))"
    by (simp add: p)
  also have "\<dots> = map_of (js_set k v a) ++ map_of b"
    by (rule Cons.IH [OF d(2)])
  also have "\<dots> = (map_of a)(k \<mapsto> v) ++ map_of b"
    by (simp only: map_of_js_set)
  also have "\<dots> = map_of a ++ (map_of b)(k \<mapsto> v)"
    by (rule map_add_upd_left [where g = "map_of b" and k = k, OF n])
  also have "\<dots> = map_of a ++ map_of (p # b)"
    by (simp only: p map_of.simps fst_conv snd_conv)
  finally show ?case .
qed

lemma frame_basic_ops [simp]:
  "connections (start_node k c) = connections c"
  "connections (fail_node k e c) = connections c"
  "connections (log_call k ok c) = connections c"
  "connections (complete_node k out c) = connections c"
  "workflowId (start_node k c) = workflowId c"
  "workflowId (fail_node k e c) = workflowId c"
  "workflowId (log_call k ok c) = workflowId c"
  "workflowId (complete_node k out c) = workflowId c"
  by (simp_all add: start_node_def fail_node_def log_call_def complete_node_def update_node_def)

lemma frame_prepare_inputs [simp]:
  "connections (prepare_inputs ns out c) = connections c"
  "workflowId (prepare_inputs ns out c) = workflowId c"
  by (induction ns out c rule: prepare_inputs.induct) (simp_all add: update_node_def)

lemma frame_propagate_output [simp]:
  "connections (propagate_output k out c) = connections c"
  "workflowId (propagate_output k out c) = workflowId c"
  by (simp_all add: propagate_output_def)

lemma findNextNodes_ops [simp]:
  "findNextNodes (start_node k c) n = findNextNodes c n"
  "findNextNodes (log_call k ok c) n = findNextNodes c n"
  "findNextNodes (complete_node k out c) n = findNextNodes c n"
  by (simp_all add: findNextNodes_def)

lemma resolve_handler_ops [simp]:
  "resolve_handler E (start_node k c) n = resolve_handler E c n"
  by (simp add: resolve_handler_def getNodeById_def)

lemma map_of_nodes_ops:
  "map_of (nodes (start_node k c)) k' =
     (if k' = k then map_option (\<lambda>ne. ne\<lparr>n_status := NRunning\<rparr>) (map_of (nodes c) k)
      else map_of (nodes c) k')"
  "map_of (nodes (fail_node k e c)) k' =
     (if k' = k then map_option (\<lambda>ne. ne\<lparr>n_status := NError, n_error := Some e\<rparr>) (map_of (nodes c) k)
      else map_of (nodes c) k')"
  "map_of (nodes (complete_node k out c)) k' =
     (if k' = k
      then map_option (\<lambda>ne. ne\<lparr>executed := True, n_status := NCompleted, outputData := Some out\<rparr>)
             (map_of (nodes c) k)
      else map_of (nodes c) k')"
  "map_of (nodes (log_call k ok c)) k' = map_of (nodes c) k'"
  by (simp_all add: start_node_def fail_node_def complete_node_def log_call_def map_of_update_node)

lemma map_of_nodes_propagate_output:
  "map_of (nodes (propagate_output k out c)) k' =
     map_option
       (\<lambda>ne. ne\<lparr>inputData :=
                  fold (\<lambda>n a. if n = k' then spread a out else a) (findNextNodes c k) (inputData ne)\<rparr>)
       (map_of (nodes (complete_node k out c)) k')"
  by (simp add: propagate_output_def map_of_prepare_inputs)

lemma findNextNodes_pairs:
  "findNextNodes c k =
     map snd (filter (\<lambda>p. fst p = k) (map (\<lambda>e. (source e, target e)) (connections c)))"
  by (simp add: findNextNodes_def filter_map o_def)

lemma map_of_initial_nodes:
  "map_of (nodes (initial_context w opts)) =
     map_of (map (\<lambda>node. (nid node, pending_node node))
               (rev (filter (\<lambda>node. nid node \<noteq> ''__proto__'') (wf_nodes w))))"
proof -
  have "map_of (fold (\<lambda>node. js_assign (nid node) (pending_node node)) ns al) =
      map_of (map (\<lambda>node. (nid node, pending_node node))
                (rev (filter (\<lambda>node. nid node \<noteq> ''__proto__'') ns)) @ al)" for ns al
    by (induction ns arbitrary: al)
       (auto simp: js_assign_def map_of_js_set fun_eq_iff map_add_def split: option.splits)
  from this [of "wf_nodes w" "[]"] show ?thesis by (simp add: initial_context_def)
qed

lemma find_unique_Some:
  assumes "y \<in> set xs" and "P y" and "\<And>x. x \<in> set xs \<Longrightarrow> P x \<Longrightarrow> x = y"
  shows "find P xs = Some y"
proof (cases "find P xs")
  case None
  with assms(1,2) show ?thesis by (auto simp: find_None_iff)
next
  case (Some x)
  then have "x \<in> set xs" "P x" by (auto simp: find_Some_iff)
  with assms(3) Some show ?thesis by auto
qed

lemma diamond_traversal:
  assumes ids: "distinct [a, b, c, d]" "[] \<notin> {a, b, c, d}" "''__proto__'' \<notin> {a, b, c, d}"
    and nodes: "wf_nodes w = [nA, nB, nC, nD]"
      "nid nA = a" "nid nB = b" "nid nC = c" "nid nD = d"
    and conns: "map (\<lambda>e. (source e, target e)) (wf_connections w) = [(a, b), (a, c), (b, d), (c, d)]"
    and store: "getWorkflow E (opt_workflowId opts) = RetWorkflow w"
    and start: "triggerNodeId opts = Some a \<or>
        ((triggerNodeId opts = None \<or> triggerNodeId opts = Some []) \<and>
         includes_str (ntype nA) ''trigger'' \<and> \<not> includes_str (ntype nB) ''trigger'' \<and>
         \<not> includes_str (ntype nC) ''trigger'' \<and> \<not> includes_str (ntype nD) ''trigger'')"
    and handlers: "registry E (ntype nA) = Some hA" "registry E (ntype nB) = Some hB"
      "registry E (ntype nC) = Some hC" "registry E (ntype nD) = Some hD"
    and outputs: "hA nA [] = Inr oa" "hB nB (spread [] oa) = Inr ob"
      "hD nD (spread [] ob) = Inr od" "hC nC (spread [] oa) = Inr oc"
  shows "invoked (final (execute E w opts)) = [(a, True), (b, True), (d, True), (c, True)]"
    and "node_input (final (execute E w opts)) d = Some (spread (spread [] ob) oc)"
proof -
  let ?c0 = "initial_context w opts"
  have neq: "a \<noteq> b" "a \<noteq> c" "a \<noteq> d" "b \<noteq> a" "b \<noteq> c" "b \<noteq> d"
    "c \<noteq> a" "c \<noteq> b" "c \<noteq> d" "d \<noteq> a" "d \<noteq> b" "d \<noteq> c"
    "a \<noteq> []" "b \<noteq> []" "c \<noteq> []" "d \<noteq> []"
    "a \<noteq> ''__proto__''" "b \<noteq> ''__proto__''" "c \<noteq> ''__proto__''" "d \<noteq> ''__proto__''"
    using ids by auto
  have m0: "map_of (nodes ?c0) a = Some (pending_node nA)" "map_of (nodes ?c0) b = Some (pending_node nB)"
    "map_of (nodes ?c0) c = Some (pending_node nC)" "map_of (nodes ?c0) d = Some (pending_node nD)"
    using neq nodes by (auto simp: map_of_initial_nodes)
  have nx: "findNextNodes ?c0 a = [b, c]" "findNextNodes ?c0 b = [d]" "findNextNodes ?c0 c = [d]"
    "findNextNodes ?c0 d = []"
    using neq conns by (auto simp: findNextNodes_pairs)
  have rh: "resolve_handler E ?c0 a = Inr (nA, hA)" "resolve_handler E ?c0 b = Inr (nB, hB)"
    "resolve_handler E ?c0 c = Inr (nC, hC)" "resolve_handler E ?c0 d = Inr (nD, hD)"
    using neq nodes store handlers by (auto simp: resolve_handler_def getNodeById_def)
  have rh': "\<And>k out c' n. resolve_handler E (propagate_output k out c') n = resolve_handler E c' n"
    "\<And>k ok c' n. resolve_handler E (log_call k ok c') n = resolve_handler E c' n"
    by (simp_all add: resolve_handler_def getNodeById_def)
  have nx': "\<And>k out c' n. findNextNodes (propagate_output k out c') n = findNextNodes c' n"
    by (simp add: findNextNodes_def)
  have run: "executeNode E ?c0 a =
      (None,
       propagate_output c oc (log_call c True (start_node c
         (propagate_output d od (log_call d True (start_node d
           (propagate_output b ob (log_call b True (start_node b
             (propagate_output a oa (log_call a True (start_node a ?c0))))))))))))"
    using outputs
    by (simp add: executeNode.simps neq m0 nx rh rh' nx' map_of_nodes_ops
        map_of_nodes_propagate_output pending_node_def)
  have found: "find (\<lambda>n. includes_str (n_type n) ''trigger'') (map snd (nodes ?c0)) =
      Some (pending_node nA)"
    if only: "includes_str (ntype nA) ''trigger''" "\<not> includes_str (ntype nB) ''trigger''"
      "\<not> includes_str (ntype nC) ''trigger''" "\<not> includes_str (ntype nD) ''trigger''"
  proof (rule find_unique_Some)
    from m0(1) have "(a, pending_node nA) \<in> set (nodes ?c0)" by (rule map_of_SomeD)
    then show "pending_node nA \<in> set (map snd (nodes ?c0))" by force
    show "includes_str (n_type (pending_node nA)) ''trigger''"
      using only(1) by (simp add: pending_node_def)
    show "\<And>x. x \<in> set (map snd (nodes ?c0)) \<Longrightarrow> includes_str (n_type x) ''trigger'' \<Longrightarrow>
        x = pending_node nA"
      using initial_nodes_subset [of w opts] nodes(1) only(2-4)
      by (auto simp: pending_node_def)
  qed
  have pick: "(if triggerNodeId opts \<noteq> None \<and> triggerNodeId opts \<noteq> Some []
       then getNodeById E ?c0 (triggerNodeId opts)
       else getNodeById E ?c0
              (map_option n_id
                 (find (\<lambda>n. includes_str (n_type n) ''trigger'') (map snd (nodes ?c0))))) =
      Inr (Some nA)"
    using start
  proof
    assume "triggerNodeId opts = Some a"
    then show ?thesis using neq nodes store by (simp add: getNodeById_def)
  next
    assume d: "(triggerNodeId opts = None \<or> triggerNodeId opts = Some []) \<and>
         includes_str (ntype nA) ''trigger'' \<and> \<not> includes_str (ntype nB) ''trigger'' \<and>
         \<not> includes_str (ntype nC) ''trigger'' \<and> \<not> includes_str (ntype nD) ''trigger''"
    then have "find (\<lambda>n. includes_str (n_type n) ''trigger'') (map snd (nodes ?c0)) =
        Some (pending_node nA)"
      by (intro found) simp_all
    moreover have "n_id (pending_node nA) = a" using nodes by (simp add: pending_node_def)
    ultimately show ?thesis using d neq nodes store by (auto simp: getNodeById_def)
  qed
  have sel: "executeWorkflow E ?c0 (triggerNodeId opts) =
      (case executeNode E ?c0 a of
         (Some e, c') \<Rightarrow> (Some e, c', [])
       | (None, c') \<Rightarrow> (None, c', [UpdateExecution (status c') (Some (formatResults c')) None]))"
    unfolding executeWorkflow_def pick using nodes by simp
  show "invoked (final (execute E w opts)) = [(a, True), (b, True), (d, True), (c, True)]"
    by (simp add: execute_def sel run)
  show "node_input (final (execute E w opts)) d = Some (spread (spread [] ob) oc)"
    by (simp add: execute_def sel run node_input_def neq m0 nx nx' map_of_nodes_ops
        map_of_nodes_propagate_output pending_node_def)
qed

section \<open>Calls of handlers that cannot be rejected\<close>

lemma registry_of_resolved:
  "resolve_handler E c n = Inr (node, handler) \<Longrightarrow> registry E (ntype node) = Some handler"
  by (auto simp: resolve_handler_def split: sum.splits option.splits)

lemma executeNode_calls_fulfilled:
  "\<forall>t handler node input. registry E t = Some handler \<longrightarrow> (\<exists>out. handler node input = Inr out) \<Longrightarrow>
   (k, False) \<notin> set (invoked c) \<Longrightarrow> (k, False) \<notin> set (invoked (snd (executeNode E c n)))"
  "\<forall>t handler node input. registry E t = Some handler \<longrightarrow> (\<exists>out. handler node input = Inr out) \<Longrightarrow>
   (k, False) \<notin> set (invoked c) \<Longrightarrow> (k, False) \<notin> set (invoked (snd (executeNodes E c ns)))"
proof (induct E c n and E c ns rule: traversal_induct)
  case (visit E c n)
  show ?case
  proof (cases rule: executeNode_cases [of c n E])
    case unknown
    with visit(3) show ?thesis by simp
  next
    case (visited ne)
    with visit(3) show ?thesis by simp
  next
    case (unresolved ne e)
    with visit(3) show ?thesis by simp
  next
    case (rejected ne node handler e)
    from registry_of_resolved [OF rejected(3)] visit(2) rejected(4)
    have False by (metis sum.distinct(1))
    then show ?thesis ..
  next
    case (fulfilled ne node handler out r c')
    have "(k, False) \<notin> set (invoked (propagate_output n out (log_call n True (start_node n c))))"
      using visit(3) by simp
    from visit(1) [OF fulfilled(1-4) visit(2) this] fulfilled(5)
    have "(k, False) \<notin> set (invoked c')" by simp
    with fulfilled(6) show ?thesis by (cases r) simp_all
  qed
next
  case (nil E c)
  then show ?case by simp
next
  case (cons E c n rest)
  obtain r c' where r: "executeNode E c n = (r, c')" by (cases "executeNode E c n")
  from cons(1) [OF cons(3,4)] r have i: "(k, False) \<notin> set (invoked c')" by simp
  show ?case
  proof (cases r)
    case None
    with cons(2) [OF r [unfolded None] cons(3) i] r show ?thesis by simp
  next
    case (Some e)
    with r i show ?thesis by simp
  qed
qed

lemma execute_calls_fulfilled:
  assumes "\<forall>t handler node input. registry E t = Some handler \<longrightarrow> (\<exists>out. handler node input = Inr out)"
  shows "(k, False) \<notin> set (invoked (final (execute E w opts)))"
proof (cases rule: execute_cases [of E w opts])
  case (no_start e)
  then show ?thesis by simp
next
  case (traversal start r c')
  have "(k, False) \<notin> set (invoked (initial_context w opts))" by simp
  from executeNode_calls_fulfilled(1) [OF assms this, of start] traversal(1)
  have "(k, False) \<notin> set (invoked c')" by simp
  with traversal(2) show ?thesis by (cases r) simp_all
qed

section \<open>Executions with the storage of the repository\<close>







section \<open>The Filter handler without conditions\<close>

text \<open>
  Claim C10. When the Filter node's configured list of conditions is absent or empty,
  the filter passes whatever the combinator is: the handler's result has
  \<^verbatim>\<open>matches = true\<close> and its \<^verbatim>\<open>data\<close> field is the input data unchanged.
\<close>

theorem filter_without_conditions_passes:
  assumes "param node ''conditions'' = JUndefined \<or> param node ''conditions'' = JArr []"
  shows "FilterHandler_execute X node input =
           Inr [(''success'', JBool True), (''executed'', JBool True),
                (''timestamp'', JStr (clock_now X)), (''matches'', JBool True),
                (''data'', JObj input)]"
  using assms
  by (auto simp: FilterHandler_execute_def Let_def allConditionsMatch_def anyConditionMatches_def)

theorem filter_without_conditions_passes_witness:
  "FilterHandler_execute demo_externals
     \<lparr>nid = ''f'', nname = ''Filter'', ntype = ''filter'',
      parameters = [(''combinator'', JStr ''OR'')]\<rparr> [(''score'', JNum 30)] =
     Inr [(''success'', JBool True), (''executed'', JBool True),
          (''timestamp'', JStr ''2024-01-01T00:00:00.000Z''), (''matches'', JBool True),
          (''data'', JObj [(''score'', JNum 30)])] \<and>
   FilterHandler_execute demo_externals
     \<lparr>nid = ''f'', nname = ''Filter'', ntype = ''filter'',
      parameters = [(''conditions'', JArr []), (''combinator'', JStr ''AND'')]\<rparr> [(''score'', JNum 30)] =
     Inr [(''success'', JBool True), (''executed'', JBool True),
          (''timestamp'', JStr ''2024-01-01T00:00:00.000Z''), (''matches'', JBool True),
          (''data'', JObj [(''score'', JNum 30)])]"
proof -
  have c: "clock_now demo_externals = ''2024-01-01T00:00:00.000Z''"
    by (simp add: demo_externals_def)
  show ?thesis
    using
      filter_without_conditions_passes [of
        "\<lparr>nid = ''f'', nname = ''Filter'', ntype = ''filter'',
          parameters = [(''combinator'', JStr ''OR'')]\<rparr>" demo_externals "[(''score'', JNum 30)]"]
      filter_without_conditions_passes [of
        "\<lparr>nid = ''f'', nname = ''Filter'', ntype = ''filter'',
          parameters = [(''conditions'', JArr []), (''combinator'', JStr ''AND'')]\<rparr>"
        demo_externals "[(''score'', JNum 30)]"]
    by (simp add: param_def c)
qed

section \<open>Matching an inbound webhook\<close>













lemmas demo_defs = demo_collaborators_def default_registry_def demo_externals_def sync_storage_def
  edge_def run_options_def

lemmas engine_defs = execute_def executeWorkflow_def initial_context_def js_assign_def js_set_def
  array_index_key_def canonical_index_def is_digit_def pending_node_def getNodeById_def
  executeNode.simps resolve_handler_def start_node_def update_node_def log_call_def
  propagate_output_def complete_node_def findNextNodes_def fail_node_def spread_def
  formatResults_def

lemmas handler_defs = WebhookTriggerHandler_execute_def EmailSendHandler_execute_def param_def
  js_or_def

lemmas view_defs = node_known_def node_executed_def node_status_def node_input_def

section \<open>Cycles\<close>

lemma executeNode_visited:
  "node_executed c n \<Longrightarrow> executeNode E c n = (None, c)"
  by (cases rule: executeNode_cases [of c n E]) (auto simp: node_executed_def)

lemma invoked_bound:
  "length (invoked (final (execute E w opts))) \<le> length (wf_nodes w)"
proof -
  let ?new = "invoked (final (execute E w opts))"
  from execute_run_summary [of w opts E]
  have d: "distinct (map fst ?new)"
    and k: "\<forall>k \<in> fst ` set ?new. node_known (initial_context w opts) k"
    unfolding run_summary_def by blast+
  have "fst ` set ?new \<subseteq> nid ` set (wf_nodes w)"
    using k initial_node_known by blast
  then have "card (fst ` set ?new) \<le> card (nid ` set (wf_nodes w))"
    by (intro card_mono) simp_all
  also have "\<dots> \<le> length (wf_nodes w)"
    by (metis card_image_le card_length le_trans List.finite_set)
  finally have "card (fst ` set ?new) \<le> length (wf_nodes w)" .
  moreover have "card (fst ` set ?new) = length ?new"
    using distinct_card [OF d] by simp
  ultimately show ?thesis by simp
qed

text \<open>
  Claim C8. For every workflow, with or without a cycle in its connections, the
  traversal ends (\<open>executeNode\<close> is a total function: each call that gets past the
  guard marks one more node record executed) and no node is executed a second time:
  the calls of handlers made by an execution are for distinct nodes, at most one per
  node of the workflow, and a visit to a node whose executed flag is true returns at
  once, leaving the context as it is and calling no handler.
\<close>

theorem no_node_executed_twice:
  "distinct (map fst (invoked (final (execute E w opts)))) \<and>
   length (invoked (final (execute E w opts))) \<le> length (wf_nodes w) \<and>
   (node_executed c n \<longrightarrow> executeNode E c n = (None, c))"
proof -
  from execute_run_summary [of w opts E]
  have "distinct (map fst (invoked (final (execute E w opts))))"
    unfolding run_summary_def by blast
  then show ?thesis using invoked_bound executeNode_visited by blast
qed

lemma cycle_run:
  "invoked (final (execute (demo_collaborators [cycle_workflow]) cycle_workflow (run_options 1))) =
     [(''A'', True), (''B'', True)]"
  "node_executed (final (execute (demo_collaborators [cycle_workflow]) cycle_workflow (run_options 1))) ''A''"
  by (simp_all add: demo_defs cycle_workflow_def engine_defs handler_defs view_defs)

theorem no_node_executed_twice_witness:
  "invoked (final (execute (demo_collaborators [cycle_workflow]) cycle_workflow (run_options 1))) =
     [(''A'', True), (''B'', True)] \<and>
   executeNode (demo_collaborators [cycle_workflow])
     (final (execute (demo_collaborators [cycle_workflow]) cycle_workflow (run_options 1))) ''A'' =
     (None, final (execute (demo_collaborators [cycle_workflow]) cycle_workflow (run_options 1)))"
  using no_node_executed_twice [of "demo_collaborators [cycle_workflow]" cycle_workflow
      "run_options 1"
      "final (execute (demo_collaborators [cycle_workflow]) cycle_workflow (run_options 1))" "''A''"]
    cycle_run
  by simp

section \<open>No trigger node\<close>

text \<open>
  Claim C7. For every workflow that contains no trigger node (no node whose type
  contains \<^verbatim>\<open>trigger\<close>) and is executed without an explicit trigger node id, the
  execution ends with the status \<^verbatim>\<open>error\<close> and the error
  \<^verbatim>\<open>No trigger node found\<close>. The execution is created and goes straight to the error:
  no handler is called and every node record stays as it was created.
\<close>

theorem no_trigger_node_error:
  assumes "\<forall>node \<in> set (wf_nodes w). \<not> includes_str (ntype node) ''trigger''"
    and "triggerNodeId opts = None \<or> triggerNodeId opts = Some []"
  shows "status (final (execute E w opts)) = XError \<and>
         exec_error (final (execute E w opts)) = Some (Error ''No trigger node found'') \<and>
         invoked (final (execute E w opts)) = [] \<and>
         nodes (final (execute E w opts)) = nodes (initial_context w opts) \<and>
         db_writes (execute E w opts) =
           [InsertExecution XRunning,
            UpdateExecution XError None (Some (Error ''No trigger node found''))]"
proof -
  have "executeWorkflow E (initial_context w opts) (triggerNodeId opts) =
      (Some (Error ''No trigger node found''), initial_context w opts, [])"
    using assms(2) initial_no_trigger [OF assms(1), of opts]
    by (auto simp: executeWorkflow_def getNodeById_def)
  then show ?thesis by (simp add: execute_def)
qed

theorem no_trigger_node_error_witness:
  "status (final (execute \<lparr>registry = default_registry demo_externals, getWorkflow = async_storage\<rparr>
       no_trigger_workflow (run_options 3))) = XError \<and>
   exec_error (final (execute \<lparr>registry = default_registry demo_externals, getWorkflow = async_storage\<rparr>
       no_trigger_workflow (run_options 3))) = Some (Error ''No trigger node found'') \<and>
   invoked (final (execute \<lparr>registry = default_registry demo_externals, getWorkflow = async_storage\<rparr>
       no_trigger_workflow (run_options 3))) = []"
proof -
  have a: "\<forall>node \<in> set (wf_nodes no_trigger_workflow). \<not> includes_str (ntype node) ''trigger''"
    by (simp add: no_trigger_workflow_def)
  have b: "triggerNodeId (run_options 3 :: int json execution_options) = None \<or>
      triggerNodeId (run_options 3 :: int json execution_options) = Some []"
    by (simp add: run_options_def)
  from no_trigger_node_error [OF a b] show ?thesis by blast
qed

section \<open>The executed flag\<close>

text \<open>
  The executed flag of a node is set on the path that follows a fulfilled call of its
  handler and nowhere else: at the end of an execution it is true exactly for the nodes
  whose handler was called and fulfilled, and a node whose handler was rejected has the
  status \<^verbatim>\<open>error\<close> with its flag false.
\<close>

lemma executed_flag_summary:
  "(node_executed (final (execute E w opts)) k \<longleftrightarrow>
      (k, True) \<in> set (invoked (final (execute E w opts)))) \<and>
   ((k, False) \<in> set (invoked (final (execute E w opts))) \<longrightarrow>
      node_status (final (execute E w opts)) k = Some NError \<and>
      \<not> node_executed (final (execute E w opts)) k)"
proof -
  let ?f = "final (execute E w opts)"
  from execute_run_summary [of w opts E] obtain r where
    s: "run_summary (initial_context w opts) (invoked ?f) r ?f" ..
  then have ex: "node_executed ?f k \<longleftrightarrow> (k, True) \<in> set (invoked ?f)"
    unfolding run_summary_def by simp
  from s have d: "distinct (map fst (invoked ?f))"
    and st: "(k, False) \<in> set (invoked ?f) \<Longrightarrow> node_status ?f k = Some NError"
    unfolding run_summary_def by blast+
  have "(k, False) \<in> set (invoked ?f) \<Longrightarrow> (k, True) \<notin> set (invoked ?f)"
    using d eq_key_imp_eq_value [of "invoked ?f" k False True] by auto
  with ex st show ?thesis by blast
qed

section \<open>The terminal status\<close>




section \<open>Cancellation\<close>









section \<open>The diamond\<close>



section \<open>Failures inside the action handlers\<close>

lemma data_String_fulfilled_or_type_error:
  "(\<exists>s. data_String R v = Inr s) \<or>
   data_String R v = Inl (TypeError ''Cannot convert object to primitive value'')"
  "(\<exists>ss. element_Strings R vs = Inr ss) \<or>
   element_Strings R vs = Inl (TypeError ''Cannot convert object to primitive value'')"
  by (induction R v and R vs rule: data_String_element_Strings.induct) auto

lemma handlers_fulfilled:
  "\<exists>out. ScheduleTriggerHandler_execute X node input = Inr out"
  "\<exists>out. WebhookTriggerHandler_execute X node input = Inr out"
  "\<exists>out. HttpRequestHandler_execute X node input = Inr out"
  "\<exists>out. EmailSendHandler_execute X node input = Inr out"
  "\<exists>out. FilterHandler_execute X node input = Inr out"
  "\<exists>out. LeadCreateHandler_execute X node input = Inr out"
  "\<exists>out. LeadScoreHandler_execute X node input = Inr out"
  by (auto simp: ScheduleTriggerHandler_execute_def WebhookTriggerHandler_execute_def
      HttpRequestHandler_execute_def EmailSendHandler_execute_def
      FilterHandler_execute_def LeadCreateHandler_execute_def LeadScoreHandler_execute_def
      Let_def split: sum.splits)

lemma default_registry_fulfilled:
  "\<forall>t handler node input. default_registry X t = Some handler \<longrightarrow>
     (\<exists>out. handler node input = Inr out)"
  using handlers_fulfilled [of X] by (auto simp: default_registry_def split: if_splits)

lemma handlers_failure_output:
  "http_call X node input = Inl e \<Longrightarrow>
     HttpRequestHandler_execute X node input = Inr (failure_output X e input)"
  "data_String (js X) (param node ''to'') = Inl e \<Longrightarrow>
     EmailSendHandler_execute X node input = Inr (failure_output X e input)"
  "\<forall>l. createLead X l = Inl e \<Longrightarrow>
     LeadCreateHandler_execute X node input = Inr (failure_output X e input)"
  "\<forall>l. scoreLead X l = Inl e \<Longrightarrow>
     LeadScoreHandler_execute X node input = Inr (failure_output X e input)"
  by (simp_all add: HttpRequestHandler_execute_def EmailSendHandler_execute_def
      LeadCreateHandler_execute_def LeadScoreHandler_execute_def Let_def)

lemma length_of_nonempty_array:
  "own_prop (JArr (x # xs) :: ('n::semiring_char_0) json) ''length'' \<noteq> Some (JNum 0)"
proof -
  have "\<not> canonical_index ''length''"
    by (simp add: canonical_index_def is_digit_def)
  moreover have "(of_nat (Suc (length xs)) :: 'n) \<noteq> 0"
    by (rule of_nat_neq_0)
  ultimately show ?thesis by simp
qed

lemma filter_failure_output:
  "param node ''conditions'' = JArr (cond # conds) \<Longrightarrow>
   FilterHandler_execute X node input =
     Inr (failure_output X
            (TypeError ''Cannot read properties of undefined (reading 'evaluateCondition')'') input)"
  using length_of_nonempty_array [of cond conds]
  by (simp add: FilterHandler_execute_def Let_def allConditionsMatch_def anyConditionMatches_def
      this_evaluateCondition_def del: own_prop.simps)

text \<open>
  Claim C2, as the specification states it, fails: the Lead Create handler catches the
  failure of the persistence gateway and returns it as data; its promise is fulfilled,
  not rejected.
\<close>

theorem lead_create_failure_counterexample:
  "createLead demo_externals [(''source'', JStr ''webhook'')] = Inl (Error ''database unavailable'') \<and>
   LeadCreateHandler_execute demo_externals
     \<lparr>nid = ''L'', nname = ''Create lead'', ntype = ''lead.create'',
      parameters = [(''leadData'', JObj [(''source'', JStr ''webhook'')])]\<rparr> [] =
     Inr [(''success'', JBool False), (''executed'', JBool True),
          (''timestamp'', JStr ''2024-01-01T00:00:00.000Z''),
          (''error'', JStr ''database unavailable''), (''data'', JObj [])]"
  by (simp add: demo_externals_def param_def LeadCreateHandler_execute_def failure_output_def)

text \<open>
  Claim C2, amended. Every action handler (HTTP Request, Email Send, Filter, Lead
  Create, Lead Score), not only the HTTP Request handler, converts its internal failures
  into structured output data (\<^verbatim>\<open>success = false\<close>, \<^verbatim>\<open>executed = true\<close>, the
  timestamp, the message of the error and the input as \<^verbatim>\<open>data\<close>): its
  \<^verbatim>\<open>execute\<close> promise is always fulfilled, never rejected. So, with the handlers that
  the router registers, no call of a handler that an execution makes is rejected: a
  failure inside a handler gives the engine no error to mark the node with.
\<close>

theorem action_handlers_never_reject:
  "(\<exists>out. HttpRequestHandler_execute X node input = Inr out) \<and>
   (\<exists>out. EmailSendHandler_execute X node input = Inr out) \<and>
   (\<exists>out. FilterHandler_execute X node input = Inr out) \<and>
   (\<exists>out. LeadCreateHandler_execute X node input = Inr out) \<and>
   (\<exists>out. LeadScoreHandler_execute X node input = Inr out) \<and>
   (http_call X node input = Inl e1 \<longrightarrow>
      HttpRequestHandler_execute X node input = Inr (failure_output X e1 input)) \<and>
   (data_String (js X) (param node ''to'') = Inl e2 \<longrightarrow>
      EmailSendHandler_execute X node input = Inr (failure_output X e2 input)) \<and>
   (param node ''conditions'' = JArr (cond # conds) \<longrightarrow>
      FilterHandler_execute X node input =
        Inr (failure_output X
               (TypeError ''Cannot read properties of undefined (reading 'evaluateCondition')'')
               input)) \<and>
   ((\<forall>l. createLead X l = Inl e3) \<longrightarrow>
      LeadCreateHandler_execute X node input = Inr (failure_output X e3 input)) \<and>
   ((\<forall>l. scoreLead X l = Inl e4) \<longrightarrow>
      LeadScoreHandler_execute X node input = Inr (failure_output X e4 input)) \<and>
   (registry E = default_registry X \<longrightarrow>
      (k, False) \<notin> set (invoked (final (execute E w opts))))"
proof -
  have "registry E = default_registry X \<Longrightarrow> (k, False) \<notin> set (invoked (final (execute E w opts)))"
    using execute_calls_fulfilled [of E k w opts] default_registry_fulfilled [of X] by simp
  then show ?thesis
    using handlers_fulfilled(3-7) [where X = X and node = node and input = input]
      handlers_failure_output(1) [where X = X and node = node and input = input and e = e1]
      handlers_failure_output(2) [where X = X and node = node and input = input and e = e2]
      handlers_failure_output(3) [where X = X and node = node and input = input and e = e3]
      handlers_failure_output(4) [where X = X and node = node and input = input and e = e4]
      filter_failure_output [where X = X and node = node and input = input
        and cond = cond and conds = conds]
    by blast
qed

theorem action_handlers_never_reject_witness:
  "LeadCreateHandler_execute demo_externals
     \<lparr>nid = ''L'', nname = ''Create lead'', ntype = ''lead.create'',
      parameters = [(''leadData'', JObj [(''source'', JStr ''webhook'')])]\<rparr> [] =
     Inr (failure_output demo_externals (Error ''database unavailable'') []) \<and>
   LeadScoreHandler_execute demo_externals
     \<lparr>nid = ''S'', nname = ''Score lead'', ntype = ''lead.score'', parameters = []\<rparr> [] =
     Inr (failure_output demo_externals (Error ''scoring unavailable'') []) \<and>
   HttpRequestHandler_execute demo_externals
     \<lparr>nid = ''H'', nname = ''Call'', ntype = ''http.request'',
      parameters = [(''url'', JStr ''https://x.test/'')]\<rparr> [] =
     Inr (failure_output demo_externals (Error ''connect ECONNREFUSED'') []) \<and>
   EmailSendHandler_execute demo_externals
     \<lparr>nid = ''M'', nname = ''Mail'', ntype = ''email.send'',
      parameters = [(''to'', JObj [(''toString'', JNum 1)])]\<rparr> [] =
     Inr (failure_output demo_externals
            (TypeError ''Cannot convert object to primitive value'') []) \<and>
   FilterHandler_execute demo_externals
     \<lparr>nid = ''F'', nname = ''Filter'', ntype = ''filter'',
      parameters = [(''conditions'', JArr [JObj [(''field'', JStr ''score'')]])]\<rparr> [] =
     Inr (failure_output demo_externals
            (TypeError ''Cannot read properties of undefined (reading 'evaluateCondition')'') []) \<and>
   (''A'', False) \<notin> set (invoked (final (execute repository_collaborators cycle_workflow
      (run_options 1))))"
proof -
  have a: "\<forall>l. createLead demo_externals l = Inl (Error ''database unavailable'')"
    "\<forall>l. scoreLead demo_externals l = Inl (Error ''scoring unavailable'')"
    by (simp_all add: demo_externals_def)
  have b: "http_call demo_externals
      \<lparr>nid = ''H'', nname = ''Call'', ntype = ''http.request'',
       parameters = [(''url'', JStr ''https://x.test/'')]\<rparr> [] = Inl (Error ''connect ECONNREFUSED'')"
    by (simp add: http_call_def replacePlaceholders_any_def replacePlaceholders_def
        match_placeholder_def processHeaders_def processBody_def param_def demo_externals_def)
  have c: "data_String (js demo_externals)
      (param \<lparr>nid = ''M'', nname = ''Mail'', ntype = ''email.send'',
              parameters = [(''to'', JObj [(''toString'', JNum 1)])]\<rparr> ''to'') =
      Inl (TypeError ''Cannot convert object to primitive value'')"
    by (simp add: param_def)
  have d: "param \<lparr>nid = ''F'', nname = ''Filter'', ntype = ''filter'',
      parameters = [(''conditions'', JArr [JObj [(''field'', JStr ''score'')]])]\<rparr> ''conditions'' =
      JArr (JObj [(''field'', JStr ''score'')] # [])"
    by (simp add: param_def)
  have r: "registry repository_collaborators = default_registry demo_externals"
    by (simp add: repository_collaborators_def)
  from action_handlers_never_reject [where X = demo_externals
      and node = "\<lparr>nid = ''L'', nname = ''Create lead'', ntype = ''lead.create'',
        parameters = [(''leadData'', JObj [(''source'', JStr ''webhook'')])]\<rparr>"
      and input = "[]" and ?e3.0 = "Error ''database unavailable''"
      and E = repository_collaborators and w = cycle_workflow and opts = "run_options 1"
      and k = "''A''"] a(1) r
  have 1: "LeadCreateHandler_execute demo_externals
     \<lparr>nid = ''L'', nname = ''Create lead'', ntype = ''lead.create'',
      parameters = [(''leadData'', JObj [(''source'', JStr ''webhook'')])]\<rparr> [] =
     Inr (failure_output demo_externals (Error ''database unavailable'') [])"
    and 6: "(''A'', False) \<notin> set (invoked (final (execute repository_collaborators cycle_workflow
      (run_options 1))))"
    by blast+
  from action_handlers_never_reject [where X = demo_externals
      and node = "\<lparr>nid = ''S'', nname = ''Score lead'', ntype = ''lead.score'', parameters = []\<rparr>"
      and input = "[]" and ?e4.0 = "Error ''scoring unavailable''"] a(2)
  have 2: "LeadScoreHandler_execute demo_externals
     \<lparr>nid = ''S'', nname = ''Score lead'', ntype = ''lead.score'', parameters = []\<rparr> [] =
     Inr (failure_output demo_externals (Error ''scoring unavailable'') [])"
    by blast
  from action_handlers_never_reject [where X = demo_externals
      and node = "\<lparr>nid = ''H'', nname = ''Call'', ntype = ''http.request'',
        parameters = [(''url'', JStr ''https://x.test/'')]\<rparr>"
      and input = "[]" and ?e1.0 = "Error ''connect ECONNREFUSED''"] b
  have 3: "HttpRequestHandler_execute demo_externals
     \<lparr>nid = ''H'', nname = ''Call'', ntype = ''http.request'',
      parameters = [(''url'', JStr ''https://x.test/'')]\<rparr> [] =
     Inr (failure_output demo_externals (Error ''connect ECONNREFUSED'') [])"
    by blast
  from action_handlers_never_reject [where X = demo_externals
      and node = "\<lparr>nid = ''M'', nname = ''Mail'', ntype = ''email.send'',
        parameters = [(''to'', JObj [(''toString'', JNum 1)])]\<rparr>"
      and input = "[]" and ?e2.0 = "TypeError ''Cannot convert object to primitive value''"] c
  have 4: "EmailSendHandler_execute demo_externals
     \<lparr>nid = ''M'', nname = ''Mail'', ntype = ''email.send'',
      parameters = [(''to'', JObj [(''toString'', JNum 1)])]\<rparr> [] =
     Inr (failure_output demo_externals
            (TypeError ''Cannot convert object to primitive value'') [])"
    by blast
  from action_handlers_never_reject [where X = demo_externals
      and node = "\<lparr>nid = ''F'', nname = ''Filter'', ntype = ''filter'',
        parameters = [(''conditions'', JArr [JObj [(''field'', JStr ''score'')]])]\<rparr>"
      and input = "[]" and cond = "JObj [(''field'', JStr ''score'')]" and conds = "[]"] d
  have 5: "FilterHandler_execute demo_externals
     \<lparr>nid = ''F'', nname = ''Filter'', ntype = ''filter'',
      parameters = [(''conditions'', JArr [JObj [(''field'', JStr ''score'')]])]\<rparr> [] =
     Inr (failure_output demo_externals
            (TypeError ''Cannot read properties of undefined (reading 'evaluateCondition')'') [])"
    by blast
  from 1 2 3 4 5 6 show ?thesis by blast
qed

end
